theory Spec2Isabelle
  imports Complex_Main
begin

section \<open>Data model\<close>

text \<open>
  The program works on float32 tensors and numpy arrays. Coordinates are modelled as
  exact reals: comparisons with the sentinel \<open>-1\<close> and with \<open>0\<close>, masking by
  multiplication with \<open>0\<close> or \<open>1\<close>, and all index computations are the same on both;
  rounding, infinities and NaN are outside this model.

  A row of a segment table is the six values \<open>[c1x, c1y, c2x, c2y, ex, ey]\<close>
  (\<open>CURVE_PARAMS = 6\<close>).
\<close>

type_synonym point = "real \<times> real"

record seg_row =
  c1x :: real
  c1y :: real
  c2x :: real
  c2y :: real
  ex :: real
  ey :: real

definition row_vals :: "seg_row \<Rightarrow> real list" where
  "row_vals r = [c1x r, c1y r, c2x r, c2y r, ex r, ey r]"

definition mk_row :: "real \<Rightarrow> real \<Rightarrow> real \<Rightarrow> real \<Rightarrow> real \<Rightarrow> real \<Rightarrow> seg_row" where
  "mk_row a b c d e f = \<lparr>c1x = a, c1y = b, c2x = c, c2y = d, ex = e, ey = f\<rparr>"

text \<open>A row filled with one value, as \<open>pad_sequence\<close> and \<open>-1 * torch.ones((pad_len, 6))\<close> write it.\<close>

definition fill_row :: "real \<Rightarrow> seg_row" where
  "fill_row v = mk_row v v v v v v"

datatype py_error = IndexError | TypeError | ValueError | RuntimeError

section \<open>float32 values\<close>

text \<open>
  Where an infinity or a NaN changes what the program computes (the masked coordinate
  loss), a float32 value is modelled as a finite number, an infinity or NaN. A result
  beyond the largest finite float32 overflows to an infinity, and the special values
  follow IEEE 754. Rounding inside the finite range and the sign of zero are not
  modelled.
\<close>

datatype f32 = Fin real | PInf | NInf | NaN

definition FLT_MAX :: real where
  "FLT_MAX = 340282346638528859811704183484516925440"

definition overflow :: "real \<Rightarrow> f32" where
  "overflow x = (if FLT_MAX < x then PInf else if x < - FLT_MAX then NInf else Fin x)"

fun fneg :: "f32 \<Rightarrow> f32" where
  "fneg (Fin a) = Fin (- a)"
| "fneg PInf = NInf"
| "fneg NInf = PInf"
| "fneg NaN = NaN"

fun fadd :: "f32 \<Rightarrow> f32 \<Rightarrow> f32" where
  "fadd (Fin a) (Fin b) = overflow (a + b)"
| "fadd NaN y = NaN"
| "fadd x NaN = NaN"
| "fadd PInf NInf = NaN"
| "fadd NInf PInf = NaN"
| "fadd PInf y = PInf"
| "fadd x PInf = PInf"
| "fadd NInf y = NInf"
| "fadd x NInf = NInf"

definition fsub :: "f32 \<Rightarrow> f32 \<Rightarrow> f32" where
  "fsub x y = fadd x (fneg y)"

fun fabs :: "f32 \<Rightarrow> f32" where
  "fabs (Fin a) = Fin \<bar>a\<bar>"
| "fabs PInf = PInf"
| "fabs NInf = PInf"
| "fabs NaN = NaN"

fun fmul :: "f32 \<Rightarrow> f32 \<Rightarrow> f32" where
  "fmul (Fin a) (Fin b) = overflow (a * b)"
| "fmul NaN y = NaN"
| "fmul x NaN = NaN"
| "fmul PInf (Fin b) = (if b = 0 then NaN else if 0 < b then PInf else NInf)"
| "fmul NInf (Fin b) = (if b = 0 then NaN else if 0 < b then NInf else PInf)"
| "fmul (Fin a) PInf = (if a = 0 then NaN else if 0 < a then PInf else NInf)"
| "fmul (Fin a) NInf = (if a = 0 then NaN else if 0 < a then NInf else PInf)"
| "fmul PInf PInf = PInf"
| "fmul PInf NInf = NInf"
| "fmul NInf PInf = NInf"
| "fmul NInf NInf = PInf"

fun fdiv :: "f32 \<Rightarrow> f32 \<Rightarrow> f32" where
  "fdiv (Fin a) (Fin b) =
     (if b = 0 then (if a = 0 then NaN else if 0 < a then PInf else NInf)
      else overflow (a / b))"
| "fdiv NaN y = NaN"
| "fdiv x NaN = NaN"
| "fdiv (Fin a) PInf = Fin 0"
| "fdiv (Fin a) NInf = Fin 0"
| "fdiv PInf (Fin b) = (if 0 \<le> b then PInf else NInf)"
| "fdiv NInf (Fin b) = (if 0 \<le> b then NInf else PInf)"
| "fdiv x y = NaN"

text \<open>
  \<open>t.sum()\<close>. The terms summed below are absolute values; with overflow as the only
  departure from exact addition, the order of their summation does not change the
  result.
\<close>

primrec fsum :: "f32 list \<Rightarrow> f32" where
  "fsum [] = Fin 0"
| "fsum (x # xs) = fadd x (fsum xs)"

definition fsum2 :: "f32 list list \<Rightarrow> f32" where
  "fsum2 t = fsum (map fsum t)"

definition fsum3 :: "f32 list list list \<Rightarrow> f32" where
  "fsum3 t = fsum (map fsum2 t)"

definition finite_f32 :: "f32 \<Rightarrow> bool" where
  "finite_f32 x = (case x of Fin a \<Rightarrow> True | PInf \<Rightarrow> False | NInf \<Rightarrow> False | NaN \<Rightarrow> False)"

text \<open>The values the operations return: a finite one lies within the range.\<close>

definition in_range :: "f32 \<Rightarrow> bool" where
  "in_range x = (case x of Fin a \<Rightarrow> \<bar>a\<bar> \<le> FLT_MAX | PInf \<Rightarrow> True | NInf \<Rightarrow> True | NaN \<Rightarrow> True)"

text \<open>A row of a float32 segment table.\<close>

record f32_row =
  f_c1x :: f32
  f_c1y :: f32
  f_c2x :: f32
  f_c2y :: f32
  f_ex :: f32
  f_ey :: f32

definition f32_vals :: "f32_row \<Rightarrow> f32 list" where
  "f32_vals r = [f_c1x r, f_c1y r, f_c2x r, f_c2y r, f_ex r, f_ey r]"

definition f32_fill :: "f32 \<Rightarrow> f32_row" where
  "f32_fill v = \<lparr>f_c1x = v, f_c1y = v, f_c2x = v, f_c2y = v, f_ex = v, f_ey = v\<rparr>"

section \<open>Sequence evaluator: the loss terms of \<open>train_batch\<close>\<close>

text \<open>\<open>t.size(1)\<close> of a batch-first tensor with at least one sample.\<close>

definition size1 :: "'a list list \<Rightarrow> nat" where
  "size1 t = length (hd t)"

definition sum2 :: "real list list \<Rightarrow> real" where
  "sum2 t = sum_list (map sum_list t)"

text \<open>
  \<open>valid_mask = (torch.arange(S)[None, :] < lengths[:, None]).float()\<close>
\<close>

definition valid_mask :: "nat \<Rightarrow> int list \<Rightarrow> real list list" where
  "valid_mask S lengths =
     map (\<lambda>l. map (\<lambda>s. if int s < l then 1 else 0) [0..<S]) lengths"

text \<open>
  \<open>err = (pred_for_curve - gt_for_curve).abs() * mask_for_curve.unsqueeze(-1)\<close>, in
  float32: the mask value multiplies the absolute difference, also where it is 0.
\<close>

definition row_err :: "f32_row \<Rightarrow> f32_row \<Rightarrow> real \<Rightarrow> f32 list" where
  "row_err p g m = map (\<lambda>(x, y). fmul (fabs (fsub x y)) (Fin m)) (zip (f32_vals p) (f32_vals g))"

definition sample_err :: "f32_row list \<Rightarrow> f32_row list \<Rightarrow> real list \<Rightarrow> f32 list list" where
  "sample_err ps gs ms = map (\<lambda>(p, g, m). row_err p g m) (zip ps (zip gs ms))"

definition curve_err ::
  "f32_row list list \<Rightarrow> f32_row list list \<Rightarrow> real list list \<Rightarrow> f32 list list list" where
  "curve_err prd gt msk = map (\<lambda>(ps, gs, ms). sample_err ps gs ms) (zip prd (zip gt msk))"

text \<open>
  The quotient \<open>err.sum() / num_valid_coords\<close> of step 3, with
  \<open>compare_len_curve = min(S, T_gt_dim)\<close> and
  \<open>num_valid_coords = (mask_for_curve.sum() * 6).clamp(min=1e-9)\<close>. The mask holds zeros
  and ones, whose sum is a count.
\<close>

definition curve_mae :: "f32_row list list \<Rightarrow> f32_row list list \<Rightarrow> int list \<Rightarrow> f32" where
  "curve_mae pred_segments gt_curves lengths =
     (let S = size1 pred_segments;
          T_gt_dim = size1 gt_curves;
          compare_len_curve = min S T_gt_dim;
          pred_for_curve = map (take compare_len_curve) pred_segments;
          gt_for_curve = map (take compare_len_curve) gt_curves;
          mask_for_curve = map (take compare_len_curve) (valid_mask S lengths);
          err = curve_err pred_for_curve gt_for_curve mask_for_curve;
          num_valid_coords = max (sum2 mask_for_curve * 6) (1 / 10 ^ 9)
      in fdiv (fsum3 err) (Fin num_valid_coords))"

definition loss_curve ::
  "real \<Rightarrow> real \<Rightarrow> f32_row list list \<Rightarrow> f32_row list list \<Rightarrow> int list \<Rightarrow> f32" where
  "loss_curve lambda_curve geom_scale pred_segments gt_curves lengths =
     fmul (fmul (Fin lambda_curve) (curve_mae pred_segments gt_curves lengths)) (Fin geom_scale)"

text \<open>
  The mean absolute error in the spec's words: the sum of the absolute differences of
  the rows \<open>s < min(S, T_gt)\<close> with \<open>s < length[b]\<close> alone, and the number of those rows.
\<close>

definition abs_diffs :: "f32_row \<Rightarrow> f32_row \<Rightarrow> f32 list" where
  "abs_diffs p g = map (\<lambda>(x, y). fabs (fsub x y)) (zip (f32_vals p) (f32_vals g))"

definition valid_rows :: "nat \<Rightarrow> int \<Rightarrow> nat list" where
  "valid_rows n l = filter (\<lambda>s. int s < l) [0..<n]"

definition valid_error_sum :: "f32_row list list \<Rightarrow> f32_row list list \<Rightarrow> int list \<Rightarrow> f32" where
  "valid_error_sum prd gt lengths =
     fsum (map (\<lambda>b. fsum (map (\<lambda>s. fsum (abs_diffs (prd ! b ! s) (gt ! b ! s)))
                        (valid_rows (min (size1 prd) (size1 gt)) (lengths ! b))))
       [0..<length lengths])"

definition valid_row_count :: "f32_row list list \<Rightarrow> f32_row list list \<Rightarrow> int list \<Rightarrow> nat" where
  "valid_row_count prd gt lengths =
     sum_list (map (\<lambda>b. length (valid_rows (min (size1 prd) (size1 gt)) (lengths ! b)))
       [0..<length lengths])"

text \<open>
  An arbitrary perturbation of a batch outside the valid rows: row \<open>s\<close> of sample \<open>b\<close> is
  kept where \<open>s < length[b]\<close> and replaced by \<open>q b s\<close> elsewhere. The shape is unchanged.
\<close>

definition perturb_invalid ::
  "int list \<Rightarrow> (nat \<Rightarrow> nat \<Rightarrow> f32_row) \<Rightarrow> f32_row list list \<Rightarrow> f32_row list list" where
  "perturb_invalid lengths q t =
     map (\<lambda>b. map (\<lambda>s. if int s < lengths ! b then t ! b ! s else q b s) [0..<length (t ! b)])
       [0..<length t]"

text \<open>
  The absolute differences of two rows are all finite; and they are so at every masked
  position of a batch.
\<close>

definition finite_abs_diff :: "f32_row \<Rightarrow> f32_row \<Rightarrow> bool" where
  "finite_abs_diff p g = list_all finite_f32 (abs_diffs p g)"

definition masked_differences_finite ::
  "int list \<Rightarrow> f32_row list list \<Rightarrow> f32_row list list \<Rightarrow> bool" where
  "masked_differences_finite lengths prd gt =
     (\<forall>b s. b < length prd \<and> b < length gt \<and> s < length (prd ! b) \<and> s < length (gt ! b)
        \<and> \<not> int s < lengths ! b \<longrightarrow> finite_abs_diff (prd ! b ! s) (gt ! b ! s))"

text \<open>A batch-first tensor of \<open>B\<close> samples with \<open>S\<close> rows each.\<close>

definition well_shaped :: "nat \<Rightarrow> nat \<Rightarrow> 'a list list \<Rightarrow> bool" where
  "well_shaped B S t = (length t = B \<and> list_all (\<lambda>rows. length rows = S) t)"

subsection \<open>Expected length\<close>

text \<open>\<open>torch.cumprod\<close> along one row.\<close>

fun cumprod_from :: "real \<Rightarrow> real list \<Rightarrow> real list" where
  "cumprod_from acc [] = []"
| "cumprod_from acc (x # xs) = (acc * x) # cumprod_from (acc * x) xs"

definition cumprod :: "real list \<Rightarrow> real list" where
  "cumprod xs = cumprod_from 1 xs"

text \<open>
  Step 5 for one sample (one row of \<open>pred_stops\<close>); the three branches are the source's
  \<open>S == 0\<close>, \<open>S == 1\<close> and the general case
  \<open>cumprod(cat([ones, prob_continue[:, :-1]]))\<close>.
\<close>

definition expected_length :: "real list \<Rightarrow> real" where
  "expected_length pred_stops =
     (let S = length pred_stops;
          prob_continue = map (\<lambda>p. 1 - p) pred_stops
      in if S = 0 then 0
         else if S = 1 then 1
         else (let prob_continue_for_survival = 1 # butlast prob_continue;
                   survival_probabilities = cumprod prob_continue_for_survival
               in sum_list survival_probabilities))"

definition mean :: "real list \<Rightarrow> real" where
  "mean xs = sum_list xs / real (length xs)"

text \<open>
  \<open>loss_count = lambda_len * (expected_length - lengths).abs().mean() * geom_scale\<close>
\<close>

definition loss_count :: "real \<Rightarrow> real \<Rightarrow> real list list \<Rightarrow> int list \<Rightarrow> real" where
  "loss_count lambda_len geom_scale pred_stops lengths =
     lambda_len
       * mean (map (\<lambda>(e, l). \<bar>e - real_of_int l\<bar>) (zip (map expected_length pred_stops) lengths))
       * geom_scale"

text \<open>The survival probability of the spec: the product of "did not stop" over the earlier steps.\<close>

definition survival :: "real list \<Rightarrow> nat \<Rightarrow> real" where
  "survival pred_stops k = (\<Prod>i<k. (1 - pred_stops ! i))"

subsection \<open>Type decoding in the evaluator\<close>

text \<open>
  Step 6 of \<open>train_batch\<close>, for one ground-truth row: the masks \<open>gt_line_mask_full\<close>,
  \<open>gt_quad_mask_full\<close>, \<open>gt_cubic_mask_full\<close>, and the label written by the two
  assignments (quadratic first, cubic second) over zeros.
\<close>

definition gt_type :: "seg_row \<Rightarrow> nat" where
  "gt_type r =
     (let c1_neg = (c1x r < 0 \<and> c1y r < 0);
          c2_neg = (c2x r < 0 \<and> c2y r < 0);
          gt_line = (c1_neg \<and> c2_neg);
          gt_quad = (c1_neg \<and> \<not> c2_neg);
          gt_cubic = (\<not> (gt_line \<or> gt_quad))
      in if gt_cubic then 2 else if gt_quad then 1 else 0)"

subsection \<open>Stop target, type labels and the total loss\<close>

text \<open>
  Step 4: \<open>stop_idx_gt = (lengths - 1).clamp(min=0)\<close>,
  \<open>target_stop = (idxs_S >= stop_idx_gt).float()\<close> and
  \<open>weight_for_stop_loss = torch.where(target_stop > 0, 5.0, 1.0)\<close>.
\<close>

definition target_stop :: "nat \<Rightarrow> int list \<Rightarrow> real list list" where
  "target_stop S lengths =
     map (\<lambda>l. map (\<lambda>s. if max (l - 1) 0 \<le> int s then 1 else 0) [0..<S]) lengths"

definition weight_for_stop_loss :: "real list list \<Rightarrow> real list list" where
  "weight_for_stop_loss target = map (map (\<lambda>t. if t > 0 then 5 else 1)) target"

text \<open>
  Boolean-mask indexing \<open>t[valid_mask.bool()]\<close> of a \<open>[B, S, ...]\<close> tensor by a
  \<open>[B, S]\<close> mask: the entries at the non-zero mask positions, in row-major order. When
  the first two dimensions of the tensor are not those of the mask, torch raises
  \<open>IndexError\<close>.
\<close>

definition masked_select :: "real list list \<Rightarrow> 'a list list \<Rightarrow> py_error + 'a list" where
  "masked_select msk t =
     (if length msk = length t \<and> list_all2 (\<lambda>ms rows. length ms = length rows) msk t
      then Inr (concat (map (\<lambda>(ms, rows). map snd (filter (\<lambda>(m, r). m \<noteq> 0) (zip ms rows)))
                  (zip msk t)))
      else Inl IndexError)"

text \<open>
  \<open>gt_types_for_masking\<close>: the labels of the first \<open>min(T_gt_dim, S)\<close> rows, padded with
  type 0 up to \<open>S\<close> columns or cut to \<open>S\<close> columns.
\<close>

definition gt_types_for_masking :: "nat \<Rightarrow> seg_row list list \<Rightarrow> nat list list" where
  "gt_types_for_masking S gt_curves =
     (let T_gt_dim = size1 gt_curves;
          gt_types_source_len = min T_gt_dim S;
          gt_types_potential = map (\<lambda>rows. map gt_type (take gt_types_source_len rows)) gt_curves
      in if gt_types_source_len < S
         then map (\<lambda>types. types @ replicate (S - gt_types_source_len) 0) gt_types_potential
         else map (take S) gt_types_potential)"

text \<open>
  What \<open>train_batch\<close> prints in the mismatch branch: the warning with the two counts.
\<close>

datatype warning = Mismatch_in_elements_for_type_loss nat nat

type_synonym logits = "real \<times> real \<times> real"

text \<open>
  Lines 1137 to 1144. \<open>F.cross_entropy\<close> is a library routine, the parameter
  \<open>cross_entropy\<close>. \<open>numel()\<close> of \<open>n\<close> rows of three logits is \<open>3 * n\<close>. The result is the
  term and the warnings printed.
\<close>

definition loss_type ::
  "(logits list \<Rightarrow> nat list \<Rightarrow> real) \<Rightarrow> real \<Rightarrow> real \<Rightarrow> logits list \<Rightarrow> nat list
     \<Rightarrow> real \<times> warning list" where
  "loss_type cross_entropy lambda_type geom_scale type_logits_for_loss gt_types_for_loss =
     (if 3 * length type_logits_for_loss > 0 then
        if length type_logits_for_loss = length gt_types_for_loss
        then (lambda_type * cross_entropy type_logits_for_loss gt_types_for_loss * geom_scale, [])
        else (0, [Mismatch_in_elements_for_type_loss
                    (length type_logits_for_loss) (length gt_types_for_loss)])
      else (0, []))"

text \<open>
  Step 6 of \<open>train_batch\<close>, lines 1105 to 1144: the two selections by \<open>valid_mask\<close>, of
  the model's \<open>type_logits\<close> and of the labels, and the term. \<open>S\<close> is
  \<open>pred_segments.size(1)\<close>; \<open>teacher_forcing\<close> is \<open>False\<close>, so \<open>geom_scale\<close> is 10. Nothing in
  \<open>train_batch\<close> catches an exception, so an error here is the error of the call.
\<close>

definition type_term ::
  "(logits list \<Rightarrow> nat list \<Rightarrow> real) \<Rightarrow> real \<Rightarrow> nat \<Rightarrow> logits list list
     \<Rightarrow> seg_row list list \<Rightarrow> int list \<Rightarrow> py_error + real \<times> warning list" where
  "type_term cross_entropy lambda_type S type_logits gt_curves lengths =
     (let geom_scale = 10;
          vm = valid_mask S lengths
      in case masked_select vm type_logits of
           Inl e \<Rightarrow> Inl e
         | Inr type_logits_for_loss \<Rightarrow>
             (case masked_select vm (gt_types_for_masking S gt_curves) of
                Inl e \<Rightarrow> Inl e
              | Inr gt_types_for_loss \<Rightarrow>
                  Inr (loss_type cross_entropy lambda_type geom_scale
                         type_logits_for_loss gt_types_for_loss)))"

section \<open>Adaptive Bezier fitter\<close>

subsection \<open>Points and numpy helpers\<close>

definition padd :: "point \<Rightarrow> point \<Rightarrow> point" where
  "padd p q = (fst p + fst q, snd p + snd q)"

definition psub :: "point \<Rightarrow> point \<Rightarrow> point" where
  "psub p q = (fst p - fst q, snd p - snd q)"

definition pscale :: "real \<Rightarrow> point \<Rightarrow> point" where
  "pscale c p = (c * fst p, c * snd p)"

definition dot :: "point \<Rightarrow> point \<Rightarrow> real" where
  "dot p q = fst p * fst q + snd p * snd q"

text \<open>\<open>np.linalg.norm\<close> of a 2-vector.\<close>

definition norm2 :: "point \<Rightarrow> real" where
  "norm2 p = sqrt ((fst p)\<^sup>2 + (snd p)\<^sup>2)"

text \<open>\<open>np.diff(segment, axis=0)\<close>: each point minus its predecessor.\<close>

definition np_diff :: "point list \<Rightarrow> point list" where
  "np_diff segment = map (\<lambda>(q, p). psub q p) (zip (tl segment) segment)"

text \<open>
  \<open>np.linspace(a, b, n)\<close> with the endpoint included; numpy returns \<open>[a]\<close> for \<open>n = 1\<close>.
\<close>

definition linspace :: "real \<Rightarrow> real \<Rightarrow> nat \<Rightarrow> real list" where
  "linspace a b n =
     (if n = 1 then [a] else map (\<lambda>i. a + real i * ((b - a) / real (n - 1))) [0..<n])"

text \<open>\<open>np.argmax\<close>: the first index of the largest value.\<close>

fun argmax_from :: "nat \<Rightarrow> real \<Rightarrow> nat \<Rightarrow> real list \<Rightarrow> nat" where
  "argmax_from best bestv i [] = best"
| "argmax_from best bestv i (x # xs) =
     (if bestv < x then argmax_from i x (Suc i) xs else argmax_from best bestv (Suc i) xs)"

definition argmax :: "real list \<Rightarrow> nat" where
  "argmax xs = (case xs of [] \<Rightarrow> 0 | x # rest \<Rightarrow> argmax_from 0 x 1 rest)"

subsection \<open>Quadratic fit\<close>

text \<open>
  The objective of \<open>fit_quadratic_bezier\<close>: the summed distance between the quadratic
  curve through \<open>p0\<close>, \<open>p1\<close>, \<open>p2\<close>, sampled at \<open>linspace(0, 1, len(points))\<close>, and the points.
\<close>

definition quadratic_point :: "point \<Rightarrow> point \<Rightarrow> point \<Rightarrow> real \<Rightarrow> point" where
  "quadratic_point p0 p1 p2 t =
     padd (padd (pscale ((1 - t)\<^sup>2) p0) (pscale (2 * (1 - t) * t) p1)) (pscale (t\<^sup>2) p2)"

definition fit_loss :: "point list \<Rightarrow> point \<Rightarrow> real" where
  "fit_loss points p1 =
     (let p0 = hd points; p2 = last points;
          ts = linspace 0 1 (length points);
          curve = map (quadratic_point p0 p1 p2) ts
      in sum_list (map (\<lambda>(c, p). norm2 (psub c p)) (zip curve points)))"

text \<open>
  \<open>scipy.optimize.minimize(loss, init, method='Powell')\<close> is a library routine; its
  result \<open>res.x\<close> is the parameter \<open>minimize\<close>, given the objective and the start value.
\<close>

definition fit_quadratic_bezier ::
  "((point \<Rightarrow> real) \<Rightarrow> point \<Rightarrow> point) \<Rightarrow> point list \<Rightarrow> point \<times> point \<times> point" where
  "fit_quadratic_bezier minimize points =
     (let p0 = hd points; p2 = last points;
          init = pscale (1 / 2) (padd p0 p2)
      in (p0, minimize (fit_loss points) init, p2))"

subsection \<open>Complexity and deviation\<close>

text \<open>
  The straightness metric is computed by numpy in float64 (binary64): every operation
  returns the exact result rounded to the nearest number with a 53-bit significand, a
  tie going to the even significand. \<open>fl64\<close> is that rounding; the exponent range is
  not bounded (no overflow, no subnormal numbers). \<open>u64\<close> is the unit roundoff.
\<close>

definition round_even :: "real \<Rightarrow> int" where
  "round_even y =
     (let f = \<lfloor>y\<rfloor>
      in if y - of_int f < 1 / 2 then f
         else if 1 / 2 < y - of_int f then f + 1
         else if even f then f else f + 1)"

definition fl64 :: "real \<Rightarrow> real" where
  "fl64 x =
     (if x = 0 then 0
      else (let e = \<lfloor>log 2 \<bar>x\<bar>\<rfloor>; ulp = 2 powr (of_int e - 52)
            in of_int (round_even (x / ulp)) * ulp))"

definition u64 :: real where
  "u64 = 1 / 2 ^ 53"

text \<open>
  The float64 operations of \<open>measure_complexity\<close>: the subtraction of two points, the
  norm of a 2-vector (two products, their sum and the square root, each rounded),
  \<open>np.diff(segment, axis=0)\<close> and \<open>np.sum\<close>, which adds the entries in sequence.
\<close>

definition sub64 :: "point \<Rightarrow> point \<Rightarrow> point" where
  "sub64 p q = (fl64 (fst p - fst q), fl64 (snd p - snd q))"

definition norm64 :: "point \<Rightarrow> real" where
  "norm64 v = fl64 (sqrt (fl64 (fl64 (fst v * fst v) + fl64 (snd v * snd v))))"

definition diff64 :: "point list \<Rightarrow> point list" where
  "diff64 segment = map (\<lambda>(q, p). sub64 q p) (zip (tl segment) segment)"

definition sum64 :: "real list \<Rightarrow> real" where
  "sum64 xs = (case xs of [] \<Rightarrow> 0 | x # rest \<Rightarrow> foldl (\<lambda>acc y. fl64 (acc + y)) x rest)"

definition measure_complexity :: "point list \<Rightarrow> real" where
  "measure_complexity segment =
     (let chord = norm64 (sub64 (last segment) (hd segment));
          arc = sum64 (map norm64 (diff64 segment))
      in if chord > fl64 (1 / 10 ^ 8) then fl64 (arc / chord) else 1)"

text \<open>The index is \<open>None\<close> where the source returns \<open>None, 0.0\<close>.\<close>

definition find_max_deviation_point :: "point list \<Rightarrow> nat option \<times> real" where
  "find_max_deviation_point segment =
     (let p0 = hd segment; p1 = last segment;
          chord = psub p1 p0;
          L = norm2 chord
      in if L < 1 / 10 ^ 8 then (None, 0)
         else (let unit = pscale (1 / L) chord;
                   normal = (- snd unit, fst unit);
                   devs = map (\<lambda>pt. \<bar>dot (psub pt p0) normal\<bar>) segment;
                   idx = argmax devs
               in (Some idx, devs ! idx)))"

lemma argmax_from_bound:
  "best < i \<Longrightarrow> argmax_from best bestv i xs < i + length xs"
proof (induction xs arbitrary: best bestv i)
  case Nil
  then show ?case by simp
next
  case (Cons x xs)
  have a: "argmax_from i x (Suc i) xs < Suc i + length xs"
    by (rule Cons.IH) simp
  have b: "argmax_from best bestv (Suc i) xs < Suc i + length xs"
    using Cons.prems by (intro Cons.IH) simp
  show ?case using a b by simp
qed

lemma argmax_less_length: "xs \<noteq> [] \<Longrightarrow> argmax xs < length xs"
proof (cases xs)
  case Nil
  then show "xs \<noteq> [] \<Longrightarrow> argmax xs < length xs" by simp
next
  case (Cons x rest)
  have "argmax_from 0 x 1 rest < 1 + length rest"
    by (rule argmax_from_bound) simp
  then show "argmax xs < length xs"
    using Cons by (simp add: argmax_def)
qed

lemma find_max_deviation_point_index:
  assumes "find_max_deviation_point segment = (Some idx, dev)" and "segment \<noteq> []"
  shows "idx < length segment"
proof -
  let ?p0 = "hd segment"
  let ?L = "norm2 (psub (last segment) ?p0)"
  let ?unit = "pscale (1 / ?L) (psub (last segment) ?p0)"
  let ?devs = "map (\<lambda>pt. \<bar>dot (psub pt ?p0) (- snd ?unit, fst ?unit)\<bar>) segment"
  from assms(1) have "idx = argmax ?devs"
    by (auto simp: find_max_deviation_point_def Let_def split: if_splits)
  moreover have "argmax ?devs < length ?devs"
    using assms(2) by (intro argmax_less_length) simp
  ultimately show ?thesis by simp
qed

subsection \<open>Recursive splitter\<close>

text \<open>
  A fitted segment is the tuple \<open>(p0, ctrl, p2, type_flag)\<close>. The errors are the
  source's: \<open>segment[-1]\<close> on an empty sequence, and \<open>segment[:idx+1]\<close> with
  \<open>idx = None\<close>.
\<close>

type_synonym fitted = "point \<times> point \<times> point \<times> nat"

definition type_flag :: "fitted \<Rightarrow> nat" where
  "type_flag s = snd (snd (snd s))"

function split_and_fit ::
  "((point \<Rightarrow> real) \<Rightarrow> point \<Rightarrow> point) \<Rightarrow> point list \<Rightarrow> real \<Rightarrow> real \<Rightarrow> py_error + fitted list" where
  "split_and_fit minimize segment threshold_complex threshold_dev =
     (if segment = [] then Inl IndexError
      else if measure_complexity segment \<le> threshold_complex
        then Inr [(hd segment, hd segment, last segment, 0)]
      else (case find_max_deviation_point segment of (idx, dev) \<Rightarrow>
        if dev \<le> threshold_dev \<or> idx = Some 0 \<or> idx = Some (length segment - 1)
          then (case fit_quadratic_bezier minimize segment of (a, b, c) \<Rightarrow> Inr [(a, b, c, 1)])
        else (case idx of
            None \<Rightarrow> Inl TypeError
          | Some i \<Rightarrow>
              (case split_and_fit minimize (take (i + 1) segment) threshold_complex threshold_dev of
                 Inl e \<Rightarrow> Inl e
               | Inr first \<Rightarrow>
                   (case split_and_fit minimize (drop i segment) threshold_complex threshold_dev of
                      Inl e \<Rightarrow> Inl e
                    | Inr second \<Rightarrow> Inr (first @ second))))))"
  by pat_completeness auto
termination
  apply (relation "measure (\<lambda>(minimize, segment, tc, td). length segment)")
    apply simp
  subgoal for minimize segment tc td idx dev i
    using find_max_deviation_point_index [of segment i dev] by auto
  subgoal for minimize segment tc td idx dev i
    by auto
  done

declare split_and_fit.simps [simp del]

text \<open>
  The same body with a bound on the depth of the recursion: \<open>None\<close> when the bound is
  reached before the recursion ends.
\<close>

fun split_and_fit_depth ::
  "nat \<Rightarrow> ((point \<Rightarrow> real) \<Rightarrow> point \<Rightarrow> point) \<Rightarrow> point list \<Rightarrow> real \<Rightarrow> real
     \<Rightarrow> (py_error + fitted list) option" where
  "split_and_fit_depth 0 minimize segment threshold_complex threshold_dev = None"
| "split_and_fit_depth (Suc d) minimize segment threshold_complex threshold_dev =
     (if segment = [] then Some (Inl IndexError)
      else if measure_complexity segment \<le> threshold_complex
        then Some (Inr [(hd segment, hd segment, last segment, 0)])
      else (case find_max_deviation_point segment of (idx, dev) \<Rightarrow>
        if dev \<le> threshold_dev \<or> idx = Some 0 \<or> idx = Some (length segment - 1)
          then (case fit_quadratic_bezier minimize segment of (a, b, c) \<Rightarrow> Some (Inr [(a, b, c, 1)]))
        else (case idx of
            None \<Rightarrow> Some (Inl TypeError)
          | Some i \<Rightarrow>
              (case split_and_fit_depth d minimize (take (i + 1) segment) threshold_complex threshold_dev of
                 None \<Rightarrow> None
               | Some (Inl e) \<Rightarrow> Some (Inl e)
               | Some (Inr first) \<Rightarrow>
                   (case split_and_fit_depth d minimize (drop i segment) threshold_complex threshold_dev of
                      None \<Rightarrow> None
                    | Some (Inl e) \<Rightarrow> Some (Inl e)
                    | Some (Inr second) \<Rightarrow> Some (Inr (first @ second)))))))"

text \<open>
  The points \<open>p + s * d\<close> of a straight line, used to state the collinear case: a
  collinear monotone sequence is \<open>map (along p d) ss\<close> for a sorted list \<open>ss\<close>.
\<close>

definition along :: "point \<Rightarrow> point \<Rightarrow> real \<Rightarrow> point" where
  "along p d s = padd p (pscale s d)"

text \<open>
  \<open>fl64\<close> has no exponent limits: it is the float64 computation as long as no
  intermediate result overflows or underflows. \<open>moderate_steps\<close> keeps a point sequence
  within that range: every coordinate difference that \<open>measure_complexity\<close> forms (between
  consecutive points, and between the last and the first point) is zero or between
  \<open>1e-100\<close> and \<open>1e100\<close> in magnitude.
\<close>

definition moderate :: "real \<Rightarrow> bool" where
  "moderate c \<longleftrightarrow> c = 0 \<or> (1 / 10 ^ 100 \<le> \<bar>c\<bar> \<and> \<bar>c\<bar> \<le> 10 ^ 100)"

definition moderate_steps :: "point list \<Rightarrow> bool" where
  "moderate_steps segment \<longleftrightarrow>
     list_all (\<lambda>v. moderate (fst v) \<and> moderate (snd v))
       (psub (last segment) (hd segment) # np_diff segment)"

section \<open>Padding detection\<close>

text \<open>
  The dataset pads a segment table to 30 rows with \<open>-1 * torch.ones((pad_len, 6))\<close>;
  \<open>torch.ones\<close> raises on a negative \<open>pad_len\<close>.
\<close>

definition pad_to_30 :: "seg_row list \<Rightarrow> py_error + seg_row list" where
  "pad_to_30 segs =
     (let pad_len = 30 - int (length segs)
      in if pad_len < 0 then Inl RuntimeError
         else Inr (segs @ replicate (nat pad_len) (fill_row (- 1))))"



text \<open>\<open>torch.where(flags)[0][0]\<close> when there is one: the first index that holds.\<close>

fun first_true :: "bool list \<Rightarrow> nat option" where
  "first_true [] = None"
| "first_true (b # bs) = (if b then Some 0 else map_option Suc (first_true bs))"

text \<open>
  \<open>SimpleShapeEncoder.forward\<close> up to \<open>valid_segment_mask_2D\<close>: the cut to \<open>seq_len\<close>
  rows, \<open>is_padding_segment = (shape_pts == -1).all(dim=2)\<close>, the first padding index
  of each sample as its \<open>actual_length\<close>, and the mask \<open>s < actual_length\<close>. A row has six
  values, so the \<open>C_in\<close> check passes.
\<close>

definition is_padding_segment :: "seg_row \<Rightarrow> bool" where
  "is_padding_segment r = list_all (\<lambda>v. v = - 1) (row_vals r)"

definition encoder_valid_segment_mask :: "nat \<Rightarrow> seg_row list list \<Rightarrow> bool list list" where
  "encoder_valid_segment_mask seq_len shape_pts0 =
     (let S0 = size1 shape_pts0;
          shape_pts = (if S0 > seq_len then map (take seq_len) shape_pts0 else shape_pts0);
          S_parent_actual = (if S0 > seq_len then seq_len else S0);
          actual_lengths = map (\<lambda>rows.
              case first_true (map is_padding_segment rows) of
                None \<Rightarrow> S_parent_actual
              | Some first_pad_idx \<Rightarrow> first_pad_idx) shape_pts
      in map (\<lambda>l. map (\<lambda>s. s < l) [0..<S_parent_actual]) actual_lengths)"

section \<open>Sequence renderer\<close>

text \<open>\<open>bezier_curve\<close>: the cubic formula at \<open>np.linspace(0, 1, n_points)\<close>.\<close>

definition cubic_point :: "point \<Rightarrow> point \<Rightarrow> point \<Rightarrow> point \<Rightarrow> real \<Rightarrow> point" where
  "cubic_point p0 c1 c2 p1 t =
     padd (padd (padd (pscale ((1 - t) ^ 3) p0) (pscale (3 * (1 - t)\<^sup>2 * t) c1))
                (pscale (3 * (1 - t) * t\<^sup>2) c2))
          (pscale (t ^ 3) p1)"

definition bezier_curve :: "point \<Rightarrow> point \<Rightarrow> point \<Rightarrow> point \<Rightarrow> nat \<Rightarrow> point list" where
  "bezier_curve p0 c1 c2 p1 n_points = map (cubic_point p0 c1 c2 p1) (linspace 0 1 n_points)"

text \<open>
  The loop of \<open>render_bezier_sequence\<close>: \<open>i\<close> is the row index, \<open>current_p0\<close> the running
  start point; each row contributes its sampled points, without the first one from the
  second row on.
\<close>

fun render_rows :: "nat \<Rightarrow> nat \<Rightarrow> point \<Rightarrow> seg_row list \<Rightarrow> point list list" where
  "render_rows n_samples i current_p0 [] = []"
| "render_rows n_samples i current_p0 (r # rs) =
     (let c1 = (c1x r, c1y r); c2 = (c2x r, c2y r); p1 = (ex r, ey r);
          segment_points = bezier_curve current_p0 c1 c2 p1 n_samples
      in (if i = 0 then segment_points else drop 1 segment_points)
         # render_rows n_samples (Suc i) p1 rs)"

definition render_bezier_sequence :: "seg_row list \<Rightarrow> point \<Rightarrow> nat \<Rightarrow> point list" where
  "render_bezier_sequence curve_params initial_p0 n_samples_per_segment =
     (if curve_params = [] then []
      else concat (render_rows n_samples_per_segment 0 initial_p0 curve_params))"

text \<open>
  \<open>render_segment\<close> of \<open>visualize_predictions\<close>. On a six-wide row \<open>seg[-2:]\<close> is the end
  point and \<open>seg[-4:-2]\<close> the second control pair. The weights \<open>B0, B1, B2\<close> (and \<open>B3\<close>) are
  those of \<open>quadratic_point\<close> and \<open>cubic_point\<close>.
\<close>

definition render_segment :: "point \<Rightarrow> seg_row \<Rightarrow> int \<Rightarrow> nat \<Rightarrow> point list" where
  "render_segment start_pt seg seg_type steps =
     (if seg_type = 0 then
        (let end_pt = (ex seg, ey seg) in [start_pt, end_pt])
      else if seg_type = 1 then
        (let ctrl_pt = (c2x seg, c2y seg); end_pt = (ex seg, ey seg)
         in map (quadratic_point start_pt ctrl_pt end_pt) (linspace 0 1 steps))
      else
        (let p1 = (c1x seg, c1y seg); p2 = (c2x seg, c2y seg); p3 = (ex seg, ey seg)
         in map (cubic_point start_pt p1 p2 p3) (linspace 0 1 steps)))"

text \<open>
  The type the visualisation infers for a ground-truth row:
  \<open>negs = (seg[:4] == -1).sum()\<close>, 0 for four, 1 for two, 2 otherwise.
\<close>

definition inferred_type :: "seg_row \<Rightarrow> int" where
  "inferred_type seg =
     (let negs = length (filter (\<lambda>v. v = - 1) (take 4 (row_vals seg)))
      in if negs = 4 then 0 else if negs = 2 then 1 else 2)"

text \<open>
  The standard Bezier curve of a control polygon, by de Casteljau's repeated linear
  interpolation; its degree is the number of control points minus one.
\<close>

definition lerp :: "real \<Rightarrow> point \<Rightarrow> point \<Rightarrow> point" where
  "lerp t p q = padd (pscale (1 - t) p) (pscale t q)"

fun bezier1 :: "point \<Rightarrow> point \<Rightarrow> real \<Rightarrow> point" where
  "bezier1 p0 p1 t = lerp t p0 p1"

fun bezier2 :: "point \<Rightarrow> point \<Rightarrow> point \<Rightarrow> real \<Rightarrow> point" where
  "bezier2 p0 p1 p2 t = lerp t (bezier1 p0 p1 t) (bezier1 p1 p2 t)"

fun bezier3 :: "point \<Rightarrow> point \<Rightarrow> point \<Rightarrow> point \<Rightarrow> real \<Rightarrow> point" where
  "bezier3 p0 p1 p2 p3 t = lerp t (bezier2 p0 p1 p2 t) (bezier2 p1 p2 p3 t)"

section \<open>Mask sampler\<close>

subsection \<open>Library helpers\<close>

text \<open>Indexing a sequence by a Python integer: negative indices count from the end.\<close>

definition py_index :: "'a list \<Rightarrow> int \<Rightarrow> py_error + 'a" where
  "py_index xs i =
     (let n = int (length xs)
      in if 0 \<le> i \<and> i < n then Inr (xs ! nat i)
         else if - n \<le> i \<and> i < 0 then Inr (xs ! nat (n + i))
         else Inl IndexError)"

text \<open>The slice \<open>xs[:n]\<close>.\<close>

definition py_take :: "int \<Rightarrow> 'a list \<Rightarrow> 'a list" where
  "py_take n xs = (if 0 \<le> n then take (nat n) xs else take (nat (int (length xs) + n)) xs)"

text \<open>The first error of a list of results, or all the values.\<close>

fun collect :: "('e + 'a) list \<Rightarrow> 'e + 'a list" where
  "collect [] = Inr []"
| "collect (Inl e # rs) = Inl e"
| "collect (Inr x # rs) = (case collect rs of Inl e \<Rightarrow> Inl e | Inr xs \<Rightarrow> Inr (x # xs))"

text \<open>\<open>np.linspace(a, b, n, endpoint=False)\<close>.\<close>

definition linspace_open :: "real \<Rightarrow> real \<Rightarrow> nat \<Rightarrow> real list" where
  "linspace_open a b n = map (\<lambda>i. a + real i * ((b - a) / real n)) [0..<n]"

fun cumsum_from :: "real \<Rightarrow> real list \<Rightarrow> real list" where
  "cumsum_from acc [] = []"
| "cumsum_from acc (x # xs) = (acc + x) # cumsum_from (acc + x) xs"

definition cumsum :: "real list \<Rightarrow> real list" where
  "cumsum xs = cumsum_from 0 xs"

text \<open>
  \<open>np.searchsorted(cum, d, side='right')\<close> and \<open>torch.bucketize(d, cum)\<close> on a
  non-decreasing \<open>cum\<close> (a running sum of lengths): the index of the first entry above
  \<open>d\<close>, respectively of the first entry not below \<open>d\<close>.
\<close>

definition searchsorted_right :: "real list \<Rightarrow> real \<Rightarrow> nat" where
  "searchsorted_right cum d = length (takeWhile (\<lambda>c. c \<le> d) cum)"

definition bucketize :: "real list \<Rightarrow> real \<Rightarrow> nat" where
  "bucketize cum d = length (takeWhile (\<lambda>c. c < d) cum)"

text \<open>\<open>int(np.ceil(np.sqrt(n)))\<close>.\<close>

definition ceil_sqrt :: "nat \<Rightarrow> nat" where
  "ceil_sqrt n = nat \<lceil>sqrt (real n)\<rceil>"

text \<open>
  \<open>meshgrid(xs, ys, indexing='xy')\<close>, stacked and flattened: the points \<open>(x, y)\<close> row by
  row, \<open>y\<close> in the outer loop.
\<close>

definition meshgrid_xy :: "real list \<Rightarrow> real list \<Rightarrow> point list" where
  "meshgrid_xy xs ys = concat (map (\<lambda>y. map (\<lambda>x. (x, y)) xs) ys)"

text \<open>
  \<open>ys, xs = np.where(parent_bin > 0)\<close>: the foreground pixels as \<open>(x, y)\<close>, in row-major
  order.
\<close>

definition where_positive :: "int list list \<Rightarrow> (nat \<times> nat) list" where
  "where_positive parent_bin =
     concat (map (\<lambda>y. map (\<lambda>x. (x, y))
         (filter (\<lambda>x. parent_bin ! y ! x > 0) [0..<length (parent_bin ! y)]))
       [0..<length parent_bin])"

text \<open>The vectors of the closed loop: \<open>edges = vstack([verts, verts[0]])\<close>, \<open>vecs = edges[1:] - edges[:-1]\<close>.\<close>

definition closed_loop_vecs :: "point list \<Rightarrow> point list" where
  "closed_loop_vecs verts = np_diff (verts @ [hd verts])"

subsection \<open>\<open>generate_deterministic_context_points\<close>\<close>

text \<open>One pass of the loop over \<open>dists\<close>.\<close>

definition edge_point :: "point list \<Rightarrow> point list \<Rightarrow> real list \<Rightarrow> real list \<Rightarrow> real \<Rightarrow> py_error + point" where
  "edge_point verts vecs lens cum d =
     (let i = int (searchsorted_right cum d) - 1
      in case py_index cum i of Inl e \<Rightarrow> Inl e | Inr cum_i \<Rightarrow>
         (case py_index lens i of Inl e \<Rightarrow> Inl e | Inr lens_i \<Rightarrow>
           (let t = (d - cum_i) / (lens_i + 1 / 10 ^ 12)
            in case py_index verts i of Inl e \<Rightarrow> Inl e | Inr verts_i \<Rightarrow>
               (case py_index vecs i of Inl e \<Rightarrow> Inl e | Inr vecs_i \<Rightarrow>
                  Inr (padd verts_i (pscale t vecs_i))))))"

text \<open>Step 1, boundary sampling.\<close>

definition boundary_points :: "point list option \<Rightarrow> int \<Rightarrow> py_error + point list" where
  "boundary_points parent_verts_scaled N_boundary =
     (case parent_verts_scaled of
        None \<Rightarrow> Inr []
      | Some verts \<Rightarrow>
          if N_boundary > 0 \<and> length verts \<ge> 2 then
            (let take_verts = min (int (length verts)) N_boundary;
                 pts = take (nat take_verts) verts;
                 extra = N_boundary - take_verts
             in if extra > 0 then
                  (let vecs = closed_loop_vecs verts;
                       lens = map norm2 vecs;
                       perim = sum_list lens;
                       dists = linspace_open 0 perim (nat extra);
                       cum = 0 # cumsum lens
                   in case collect (map (edge_point verts vecs lens cum) dists) of
                        Inl e \<Rightarrow> Inl e
                      | Inr extras \<Rightarrow> Inr (pts @ extras))
                else Inr pts)
          else Inr [])"

text \<open>The scaling \<open>(x / (W - 1 + 1e-9)) * sx\<close>, \<open>(y / (H - 1 + 1e-9)) * sy\<close>.\<close>

definition normalize_point :: "int \<Rightarrow> int \<Rightarrow> real \<Rightarrow> real \<Rightarrow> point \<Rightarrow> point" where
  "normalize_point W H sx sy p =
     ((fst p / (real_of_int W - 1 + 1 / 10 ^ 9)) * sx, (snd p / (real_of_int H - 1 + 1 / 10 ^ 9)) * sy)"

text \<open>
  Step 2 when \<open>needed > 0\<close> and a mask is given: the interior pixels at
  \<open>np.linspace(0, M - 1, needed, dtype=int)\<close>, else the vertices cyclically, else a grid
  over the canvas.
\<close>

definition interior_points ::
  "point list option \<Rightarrow> int list list \<Rightarrow> nat \<Rightarrow> int \<Rightarrow> int \<Rightarrow> real \<Rightarrow> real \<Rightarrow> point list" where
  "interior_points parent_verts_scaled parent_bin needed W H sx sy =
     (let fg = where_positive parent_bin;
          M = length fg
      in if M > 0 then
           (let idxs = map (\<lambda>v. nat \<lfloor>v\<rfloor>) (linspace 0 (real M - 1) needed);
                sel = map (\<lambda>i. (real (fst (fg ! i)), real (snd (fg ! i)))) idxs
            in map (normalize_point W H sx sy) sel)
         else if parent_verts_scaled \<noteq> None \<and> length (the parent_verts_scaled) > 0 then
           (let pool = the parent_verts_scaled
            in map (\<lambda>k. pool ! (k mod length pool)) [0..<needed])
         else
           (let side = ceil_sqrt needed;
                xs_lin = linspace 0 (real_of_int W - 1) side;
                ys_lin = linspace 0 (real_of_int H - 1) side;
                grid = take needed (meshgrid_xy xs_lin ys_lin)
            in map (normalize_point W H sx sy) grid))"

definition generate_deterministic_context_points ::
  "point list option \<Rightarrow> int list list option \<Rightarrow> int \<Rightarrow> int \<Rightarrow> int \<Rightarrow> int \<Rightarrow> real \<Rightarrow> real
     \<Rightarrow> py_error + point list" where
  "generate_deterministic_context_points parent_verts_scaled parent_bin N_total N_boundary W H sx sy =
     (case boundary_points parent_verts_scaled N_boundary of
        Inl e \<Rightarrow> Inl e
      | Inr pts0 \<Rightarrow>
          (let needed = N_total - int (length pts0);
               pts = (if needed > 0 \<and> parent_bin \<noteq> None
                      then pts0 @ interior_points parent_verts_scaled (the parent_bin) (nat needed) W H sx sy
                      else pts0)
           in Inr (if int (length pts) > N_total then py_take N_total pts else pts)))"

subsection \<open>\<open>generate_deterministic_context_points_gpu\<close>\<close>

text \<open>
  The extra boundary points of the accelerated variant: \<open>torch.linspace\<close> includes the
  end point, and the index is clamped into the edges.
\<close>

definition edge_point_gpu :: "point list \<Rightarrow> point list \<Rightarrow> real list \<Rightarrow> real list \<Rightarrow> real \<Rightarrow> point" where
  "edge_point_gpu V vecs lens cum d =
     (let idx = nat (max 0 (min (int (bucketize cum d) - 1) (int (length lens) - 1)));
          t = (d - cum ! idx) / (lens ! idx + 1 / 10 ^ 12)
      in padd (V ! idx) (pscale t (vecs ! idx)))"

definition boundary_points_gpu :: "point list option \<Rightarrow> int \<Rightarrow> point list" where
  "boundary_points_gpu parent_verts_scaled N_boundary =
     (if N_boundary > 0 \<and> parent_verts_scaled \<noteq> None \<and> length (the parent_verts_scaled) \<ge> 1 then
        (let V = the parent_verts_scaled;
             extra = N_boundary - int (length V)
         in if extra > 0 then
              (let vecs = closed_loop_vecs V;
                   lens = map norm2 vecs;
                   perim = sum_list lens;
                   dists = linspace 0 perim (nat extra);
                   cum = 0 # cumsum lens
               in V @ map (edge_point_gpu V vecs lens cum) dists)
            else V)
      else replicate (nat N_boundary) (0, 0))"

text \<open>
  Step 2 of the accelerated variant. Indexing an empty mask raises; \<open>.long()\<close> cuts the
  non-negative grid coordinates down; \<open>valid[-1:].expand(k, 2)\<close> raises when \<open>valid\<close> is
  empty and \<open>k > 0\<close>.
\<close>

definition interior_points_gpu :: "int list list \<Rightarrow> int \<Rightarrow> py_error + point list" where
  "interior_points_gpu parent_bin N_interior =
     (if N_interior > 0 then
        (let H = length parent_bin;
             W = (if H = 0 then 0 else length (hd parent_bin));
             g = ceil_sqrt (nat N_interior);
             xs = linspace 0 (real W - 1) g;
             ys = linspace 0 (real H - 1) g;
             cand = meshgrid_xy xs ys
         in if H = 0 \<or> W = 0 then Inl IndexError
            else
              (let valid = filter (\<lambda>c. parent_bin ! nat \<lfloor>snd c\<rfloor> ! nat \<lfloor>fst c\<rfloor> > 0) cand;
                   Mv = length valid
               in if int Mv \<ge> N_interior then
                    Inr (map (\<lambda>c. (fst c / (real W - 1 + 1 / 10 ^ 9), snd c / (real H - 1 + 1 / 10 ^ 9)))
                          (take (nat N_interior) valid))
                  else if Mv = 0 then Inl RuntimeError
                  else
                    Inr (map (\<lambda>c. (fst c / (real W - 1 + 1 / 10 ^ 9), snd c / (real H - 1 + 1 / 10 ^ 9)))
                          (valid @ replicate (nat N_interior - Mv) (last valid)))))
      else Inr (replicate (nat N_interior) (0, 0)))"

definition generate_deterministic_context_points_gpu ::
  "point list option \<Rightarrow> int list list \<Rightarrow> int \<Rightarrow> int \<Rightarrow> int \<Rightarrow> py_error + point list" where
  "generate_deterministic_context_points_gpu parent_verts_scaled parent_bin N_total N_boundary N_interior =
     (let pts0 = boundary_points_gpu parent_verts_scaled N_boundary
      in case interior_points_gpu parent_bin N_interior of
           Inl e \<Rightarrow> Inl e
         | Inr pts_i \<Rightarrow>
             (let pts = pts0 @ pts_i
              in if int (length pts) < N_total then
                   (if pts = [] then Inl IndexError
                    else Inr (py_take N_total (pts @ replicate (nat (N_total - int (length pts))) (last pts))))
                 else Inr (py_take N_total pts)))"

section \<open>Expected length: proofs\<close>

lemma sum_list_cumprod_from:
  "sum_list (cumprod_from a xs) = a * (\<Sum>k<length xs. \<Prod>i\<le>k. xs ! i)"
proof (induction xs arbitrary: a)
  case Nil
  then show ?case by simp
next
  case (Cons x xs)
  have shift: "(\<Prod>i\<le>Suc k. (x # xs) ! i) = x * (\<Prod>i\<le>k. xs ! i)" for k
    by (simp add: prod.atMost_Suc_shift del: prod.atMost_Suc)
  have "(\<Sum>k<Suc (length xs). \<Prod>i\<le>k. (x # xs) ! i)
        = x + (\<Sum>k<length xs. \<Prod>i\<le>Suc k. (x # xs) ! i)"
    by (simp add: sum.lessThan_Suc_shift del: sum.lessThan_Suc prod.atMost_Suc)
  also have "\<dots> = x + x * (\<Sum>k<length xs. \<Prod>i\<le>k. xs ! i)"
    by (simp only: shift sum_distrib_left)
  finally show ?case
    by (simp add: Cons.IH algebra_simps del: sum.lessThan_Suc prod.atMost_Suc)
qed

lemma survival_shift:
  assumes "k < length ps"
  shows "(\<Prod>i\<le>k. (1 # butlast (map (\<lambda>p. 1 - p) ps)) ! i) = survival ps k"
proof -
  have "(\<Prod>i\<le>k. (1 # butlast (map (\<lambda>p. 1 - p) ps)) ! i)
        = (\<Prod>i<k. (1 # butlast (map (\<lambda>p. 1 - p) ps)) ! Suc i)"
    by (simp add: prod.atMost_shift)
  also have "\<dots> = (\<Prod>i<k. (1 - ps ! i))"
    using assms by (intro prod.cong) (auto simp: nth_butlast)
  finally show ?thesis by (simp add: survival_def)
qed

text \<open>
  C6. The expected length of a sample is the sum over the steps \<open>k < S\<close> of the survival
  probability, the product of \<open>1 - stop\<close> over the steps before \<open>k\<close> (so it is 1 at step
  0), and the expected-length term is the weighted mean absolute deviation of it from
  the true lengths.
\<close>

theorem expected_length_is_sum_of_survival:
  "expected_length pred_stops = (\<Sum>k<length pred_stops. survival pred_stops k)
   \<and> survival pred_stops 0 = 1
   \<and> survival pred_stops (Suc k) = survival pred_stops k * (1 - pred_stops ! k)
   \<and> loss_count lambda_len geom_scale stops lengths =
       lambda_len
         * (sum_list (map (\<lambda>(e, l). \<bar>e - real_of_int l\<bar>) (zip (map expected_length stops) lengths))
            / real (length (zip (map expected_length stops) lengths)))
         * geom_scale"
proof -
  have general: "expected_length pred_stops = (\<Sum>k<length pred_stops. survival pred_stops k)"
  proof (cases "length pred_stops \<le> 1")
    case True
    then have "length pred_stops = 0 \<or> length pred_stops = 1" by linarith
    then show ?thesis
      by (auto simp: expected_length_def survival_def)
  next
    case False
    then have len: "length (1 # butlast (map (\<lambda>p. 1 - p) pred_stops)) = length pred_stops"
      by (cases pred_stops) auto
    have "expected_length pred_stops
          = sum_list (cumprod_from 1 (1 # butlast (map (\<lambda>p. 1 - p) pred_stops)))"
      using False by (cases pred_stops) (auto simp: expected_length_def cumprod_def Let_def)
    also have "\<dots> = (\<Sum>k<length pred_stops. \<Prod>i\<le>k. (1 # butlast (map (\<lambda>p. 1 - p) pred_stops)) ! i)"
      by (simp only: sum_list_cumprod_from len mult_1)
    also have "\<dots> = (\<Sum>k<length pred_stops. survival pred_stops k)"
      by (intro sum.cong refl survival_shift) simp
    finally show ?thesis .
  qed
  show ?thesis
    using general by (simp add: survival_def loss_count_def mean_def)
qed

section \<open>Fitter: proofs\<close>

lemma split_and_fit_type_flags:
  "split_and_fit minimize segment tc td = Inr segs \<Longrightarrow> s \<in> set segs
   \<Longrightarrow> type_flag s = 0 \<or> type_flag s = 1"
proof (induction minimize segment tc td arbitrary: segs rule: split_and_fit.induct)
  case (1 minimize segment tc td)
  note res = "1.prems"(1) and mem = "1.prems"(2)
  show ?case
  proof (cases "segment = [] \<or> measure_complexity segment \<le> tc")
    case True
    with res mem show ?thesis
      by (subst (asm) split_and_fit.simps) (auto simp: type_flag_def split: if_splits)
  next
    case False
    obtain idx dev where fm: "find_max_deviation_point segment = (idx, dev)"
      by (cases "find_max_deviation_point segment")
    show ?thesis
    proof (cases "dev \<le> td \<or> idx = Some 0 \<or> idx = Some (length segment - 1)")
      case True
      with res mem False fm show ?thesis
        by (subst (asm) split_and_fit.simps) (auto simp: type_flag_def split: prod.splits)
    next
      case split: False
      from res False fm split obtain i first second where i: "idx = Some i"
        and first: "split_and_fit minimize (take (i + 1) segment) tc td = Inr first"
        and second: "split_and_fit minimize (drop i segment) tc td = Inr second"
        and segs: "segs = first @ second"
        by (subst (asm) split_and_fit.simps) (auto split: option.splits sum.splits)
      from mem segs have "s \<in> set first \<or> s \<in> set second" by simp
      then show ?thesis
      proof
        assume "s \<in> set first"
        with "1.IH"(1) [OF _ _ fm [symmetric] split i first] False show ?thesis by simp
      next
        assume "s \<in> set second"
        with "1.IH"(2) [OF _ _ fm [symmetric] split i first second] False show ?thesis by simp
      qed
    qed
  qed
qed

lemma split_index_interior:
  assumes "segment \<noteq> []"
    and "find_max_deviation_point segment = (Some i, dev)"
    and "\<not> (dev \<le> td \<or> Some i = Some 0 \<or> Some i = Some (length segment - 1))"
  shows "0 < i \<and> i < length segment - 1"
proof -
  have "i < length segment" using assms(2,1) by (rule find_max_deviation_point_index)
  with assms(3) show ?thesis by auto
qed

lemma depth_suffices:
  "length segment \<le> Suc d \<Longrightarrow> 0 < d
   \<Longrightarrow> split_and_fit_depth d minimize segment tc td = Some (split_and_fit minimize segment tc td)"
proof (induction d arbitrary: segment)
  case 0
  then show ?case by simp
next
  case (Suc d)
  show ?case
  proof (cases "segment = [] \<or> measure_complexity segment \<le> tc")
    case True
    then show ?thesis by (subst split_and_fit.simps) auto
  next
    case False
    obtain idx dev where fm: "find_max_deviation_point segment = (idx, dev)"
      by (cases "find_max_deviation_point segment")
    show ?thesis
    proof (cases "dev \<le> td \<or> idx = Some 0 \<or> idx = Some (length segment - 1) \<or> idx = None")
      case True
      then show ?thesis using False fm
        by (subst split_and_fit.simps) (auto split: prod.splits option.splits)
    next
      case split: False
      then obtain i where i: "idx = Some i" by auto
      have int: "0 < i \<and> i < length segment - 1"
        using False fm split i by (intro split_index_interior [where dev = dev and td = td]) auto
      then have d: "0 < d" using Suc.prems by linarith
      have "i + 1 < length segment" using int by linarith
      then have l1: "length (take (i + 1) segment) \<le> Suc d" using Suc.prems by simp
      have l2: "length (drop i segment) \<le> Suc d" using int Suc.prems by (simp, linarith)
      show ?thesis
        using False fm split i Suc.IH [OF l1 d] Suc.IH [OF l2 d]
        by (subst split_and_fit.simps) (simp split: sum.splits)
    qed
  qed
qed


subsection \<open>Rounding to float64\<close>

lemma floor_log2_eq:
  assumes "0 < x" and "2 powr of_int e \<le> x" and "x < 2 powr (of_int e + 1)"
  shows "\<lfloor>log 2 x\<rfloor> = e"
proof (rule floor_unique)
  show "of_int e \<le> log 2 x"
    using assms by (simp add: le_log_iff)
  show "log 2 x < of_int e + 1"
    using assms by (simp add: log_less_iff)
qed

lemma exponent_bounds:
  assumes "0 < x"
  shows "2 powr of_int \<lfloor>log 2 x\<rfloor> \<le> x \<and> x < 2 powr (of_int \<lfloor>log 2 x\<rfloor> + 1)"
proof
  show "2 powr of_int \<lfloor>log 2 x\<rfloor> \<le> x"
    using assms by (subst le_log_iff [symmetric]) simp_all
  have "log 2 x < of_int \<lfloor>log 2 x\<rfloor> + 1" by linarith
  then show "x < 2 powr (of_int \<lfloor>log 2 x\<rfloor> + 1)"
    using assms by (subst log_less_iff [symmetric]) simp_all
qed

lemma round_even_error: "\<bar>of_int (round_even y) - y\<bar> \<le> 1 / 2"
proof -
  have "of_int \<lfloor>y\<rfloor> \<le> y" "y < of_int \<lfloor>y\<rfloor> + 1" by linarith+
  then show ?thesis
    by (auto simp: round_even_def Let_def)
qed

lemma round_even_unique:
  assumes "of_int m - 1 / 2 < y" and "y < of_int m + 1 / 2"
  shows "round_even y = m"
proof -
  have f: "of_int \<lfloor>y\<rfloor> \<le> y" "y < of_int \<lfloor>y\<rfloor> + 1" by linarith+
  have "\<lfloor>y\<rfloor> = m \<or> \<lfloor>y\<rfloor> = m - 1"
    using assms f by linarith
  then show ?thesis
  proof
    assume "\<lfloor>y\<rfloor> = m"
    then show ?thesis using assms by (simp add: round_even_def Let_def)
  next
    assume "\<lfloor>y\<rfloor> = m - 1"
    then show ?thesis using assms by (simp add: round_even_def Let_def)
  qed
qed

lemma round_even_of_int: "round_even (of_int k) = k"
  by (rule round_even_unique) simp_all

lemma fl64_eval:
  assumes "x \<noteq> 0" and "2 powr of_int e \<le> \<bar>x\<bar>" and "\<bar>x\<bar> < 2 powr (of_int e + 1)"
    and "round_even (x / 2 powr (of_int e - 52)) = m"
  shows "fl64 x = of_int m * 2 powr (of_int e - 52)"
proof -
  have "\<lfloor>log 2 \<bar>x\<bar>\<rfloor> = e"
    using assms(1-3) by (intro floor_log2_eq) auto
  then show ?thesis
    using assms(1,4) by (simp add: fl64_def Let_def)
qed

lemma fl64_zero: "fl64 0 = 0"
  by (simp add: fl64_def)

lemma fl64_error: "\<bar>fl64 x - x\<bar> \<le> \<bar>x\<bar> * u64"
proof (cases "x = 0")
  case True
  then show ?thesis by (simp add: fl64_def)
next
  case False
  define e where "e = \<lfloor>log 2 \<bar>x\<bar>\<rfloor>"
  define ulp :: real where "ulp = 2 powr (of_int e - 52)"
  have pos: "0 < ulp" by (simp add: ulp_def)
  have fl: "fl64 x = of_int (round_even (x / ulp)) * ulp"
    using False by (simp add: fl64_def Let_def e_def ulp_def)
  have "fl64 x - x = (of_int (round_even (x / ulp)) - x / ulp) * ulp"
    using pos by (simp add: fl algebra_simps)
  then have "\<bar>fl64 x - x\<bar> = \<bar>of_int (round_even (x / ulp)) - x / ulp\<bar> * ulp"
    using pos by (simp add: abs_mult)
  also have "\<dots> \<le> (1 / 2) * ulp"
    using pos round_even_error [of "x / ulp"] by (intro mult_right_mono) auto
  also have "(1 / 2) * ulp = 2 powr of_int e * u64"
    by (simp add: ulp_def u64_def powr_diff)
  also have "\<dots> \<le> \<bar>x\<bar> * u64"
    using exponent_bounds [of "\<bar>x\<bar>"] False
    by (intro mult_right_mono) (auto simp: e_def u64_def)
  finally show ?thesis .
qed


lemma u64_bounds: "0 < u64" "u64 < 1"
  by (simp_all add: u64_def)

lemma fl64_nonneg_bounds:
  assumes "0 \<le> x"
  shows "x * (1 - u64) \<le> fl64 x" and "fl64 x \<le> x * (1 + u64)" and "0 \<le> fl64 x"
proof -
  have e: "\<bar>fl64 x - x\<bar> \<le> x * u64"
    using fl64_error [of x] assms by simp
  show l: "x * (1 - u64) \<le> fl64 x" using e by (simp add: algebra_simps abs_le_iff)
  show "fl64 x \<le> x * (1 + u64)" using e by (simp add: algebra_simps abs_le_iff)
  have "0 \<le> x * (1 - u64)" using assms u64_bounds by simp
  then show "0 \<le> fl64 x" using l by linarith
qed

lemma fl64_abs_bounds:
  "\<bar>x\<bar> * (1 - u64) \<le> \<bar>fl64 x\<bar>" "\<bar>fl64 x\<bar> \<le> \<bar>x\<bar> * (1 + u64)"
proof -
  have e: "\<bar>fl64 x - x\<bar> \<le> \<bar>x\<bar> * u64" by (rule fl64_error)
  show "\<bar>x\<bar> * (1 - u64) \<le> \<bar>fl64 x\<bar>" using e by (simp add: algebra_simps; linarith)
  show "\<bar>fl64 x\<bar> \<le> \<bar>x\<bar> * (1 + u64)" using e by (simp add: algebra_simps; linarith)
qed

lemma fl64_of_int:
  assumes "\<bar>k\<bar> < 2 ^ 53"
  shows "fl64 (of_int k) = of_int k"
proof (cases "k = 0")
  case True
  then show ?thesis by (simp add: fl64_def)
next
  case False
  define e where "e = \<lfloor>log 2 \<bar>real_of_int k\<bar>\<rfloor>"
  define n where "n = nat (52 - e)"
  have pos: "0 < \<bar>real_of_int k\<bar>" using False by simp
  have "real_of_int \<bar>k\<bar> < real_of_int (2 ^ 53)"
    using assms by (simp only: of_int_less_iff)
  then have "\<bar>real_of_int k\<bar> < 2 powr 53" by simp
  then have "log 2 \<bar>real_of_int k\<bar> < 53" using pos by (simp add: log_less_iff)
  then have e52: "e \<le> 52" by (simp add: e_def floor_le_iff)
  have "real_of_int e - 52 = - real n" using e52 by (simp add: n_def)
  then have ulp: "2 powr (real_of_int e - 52) = 1 / 2 ^ n"
    by (simp add: powr_minus powr_realpow divide_inverse)
  have "real_of_int k / 2 powr (real_of_int e - 52) = real_of_int (k * 2 ^ n)"
    by (simp add: ulp)
  then have "round_even (real_of_int k / 2 powr (real_of_int e - 52)) = k * 2 ^ n"
    by (simp only: round_even_of_int)
  then show ?thesis
    using False by (simp add: fl64_def Let_def ulp flip: e_def)
qed

lemma fl64_numeral: "numeral w < (2 ^ 53 :: int) \<Longrightarrow> fl64 (numeral w) = numeral w"
  using fl64_of_int [of "numeral w"] by simp

lemma fl64_one: "fl64 1 = 1"
  using fl64_of_int [of 1] by simp

lemma fl64_small: "fl64 2 = 2" "fl64 3 = 3" "fl64 4 = 4" "fl64 5 = 5" "fl64 7 = 7" "fl64 8 = 8"
  "fl64 9 = 9" "fl64 16 = 16" "fl64 18 = 18" "fl64 25 = 25"
  by (simp_all add: fl64_numeral)



lemma two_powr_neg_numeral: "(2::real) powr - numeral n = 1 / 2 ^ numeral n"
  by (simp add: powr_minus)

lemma round_even_sqrt:
  assumes "0 < c" and "1 \<le> m"
    and "(2 * of_int m - 1)\<^sup>2 < 4 * x * c\<^sup>2" and "4 * x * c\<^sup>2 < (2 * of_int m + 1)\<^sup>2"
  shows "round_even (sqrt x * c) = m"
proof (rule round_even_unique)
  have c: "sqrt x * c = sqrt (x * c\<^sup>2)"
    using assms(1) by (simp add: real_sqrt_mult)
  have "(of_int m - 1 / 2)\<^sup>2 < x * c\<^sup>2"
    using assms(3) by (simp add: power2_eq_square algebra_simps)
  then have "of_int m - 1 / 2 < sqrt (x * c\<^sup>2)"
    by (rule real_less_rsqrt)
  then show "of_int m - 1 / 2 < sqrt x * c" by (simp only: c)
  have "x * c\<^sup>2 < (of_int m + 1 / 2)\<^sup>2"
    using assms(4) by (simp add: power2_eq_square algebra_simps)
  moreover have "0 \<le> real_of_int m + 1 / 2" using assms(2) by simp
  ultimately have "sqrt (x * c\<^sup>2) < of_int m + 1 / 2"
    by (intro real_less_lsqrt)
  then show "sqrt x * c < of_int m + 1 / 2" by (simp only: c)
qed

lemma sqrt_2_range: "1 \<le> sqrt 2" "sqrt 2 < 2"
proof -
  show "1 \<le> sqrt 2" by simp
  show "sqrt 2 < 2" by (rule real_less_lsqrt) simp_all
qed

lemma fl64_sqrt_2: "fl64 (sqrt 2) = 6369051672525773 / 2 ^ 52"
proof -
  have r: "round_even (sqrt 2 * 2 ^ 52) = 6369051672525773"
    by (rule round_even_sqrt) simp_all
  have "fl64 (sqrt 2) = of_int 6369051672525773 * 2 powr (of_int 0 - 52)"
    using sqrt_2_range r by (intro fl64_eval) (simp_all add: two_powr_neg_numeral)
  then show ?thesis by (simp add: two_powr_neg_numeral)
qed

lemma sqrt_8_range: "2 \<le> sqrt 8" "sqrt 8 < 4"
proof -
  show "2 \<le> sqrt 8" by (rule real_le_rsqrt) simp
  show "sqrt 8 < 4" by (rule real_less_lsqrt) simp_all
qed

lemma fl64_sqrt_8: "fl64 (sqrt 8) = 6369051672525773 / 2 ^ 51"
proof -
  have r: "round_even (sqrt 8 * 2 ^ 51) = 6369051672525773"
    by (rule round_even_sqrt) simp_all
  have "fl64 (sqrt 8) = of_int 6369051672525773 * 2 powr (of_int 1 - 52)"
    using sqrt_8_range r by (intro fl64_eval) (simp_all add: two_powr_neg_numeral)
  then show ?thesis by (simp add: two_powr_neg_numeral)
qed

lemma sqrt_18_range: "4 \<le> sqrt 18" "sqrt 18 < 8"
proof -
  show "4 \<le> sqrt 18" by (rule real_le_rsqrt) simp
  show "sqrt 18 < 8" by (rule real_less_lsqrt) simp_all
qed

lemma fl64_sqrt_18: "fl64 (sqrt 18) = 4776788754394329 / 2 ^ 50"
proof -
  have r: "round_even (sqrt 18 * 2 ^ 50) = 4776788754394329"
    by (rule round_even_sqrt) simp_all
  have "fl64 (sqrt 18) = of_int 4776788754394329 * 2 powr (of_int 2 - 52)"
    using sqrt_18_range r by (intro fl64_eval) (simp_all add: two_powr_neg_numeral)
  then show ?thesis by (simp add: two_powr_neg_numeral)
qed

lemma fl64_arc_sum:
  "fl64 (6369051672525773 / 2 ^ 52 + 6369051672525773 / 2 ^ 51) = 4776788754394330 / 2 ^ 50"
proof -
  have r: "round_even ((6369051672525773 / 2 ^ 52 + 6369051672525773 / 2 ^ 51) * 2 ^ 50)
      = 4776788754394330"
    by (rule round_even_unique) simp_all
  have "fl64 (6369051672525773 / 2 ^ 52 + 6369051672525773 / 2 ^ 51)
      = of_int 4776788754394330 * 2 powr (of_int 2 - 52)"
    using r by (intro fl64_eval) (simp_all add: two_powr_neg_numeral)
  then show ?thesis by (simp add: two_powr_neg_numeral)
qed

lemma fl64_ratio:
  "fl64 ((4776788754394330 / 2 ^ 50) / (4776788754394329 / 2 ^ 50)) = 4503599627370497 / 2 ^ 52"
proof -
  have r: "round_even ((4776788754394330 / 2 ^ 50) / (4776788754394329 / 2 ^ 50) * 2 ^ 52)
      = 4503599627370497"
    by (rule round_even_unique) simp_all
  have "fl64 ((4776788754394330 / 2 ^ 50) / (4776788754394329 / 2 ^ 50))
      = of_int 4503599627370497 * 2 powr (of_int 0 - 52)"
    using r by (intro fl64_eval) (simp_all add: two_powr_neg_numeral)
  then show ?thesis by (simp add: two_powr_neg_numeral)
qed

subsection \<open>The metric of the diagonal \<open>(0,0), (1,1), (3,3)\<close>\<close>

lemma sum64_simps: "sum64 [] = 0" "sum64 [x] = x" "sum64 [x, y] = fl64 (x + y)"
  by (simp_all add: sum64_def)

lemma diff64_simps:
  "diff64 [] = []" "diff64 [x] = []" "diff64 (x # y # zs) = sub64 y x # diff64 (y # zs)"
  by (simp_all add: diff64_def)

lemma norm64_diag:
  "norm64 (1, 1) = 6369051672525773 / 2 ^ 52"
  "norm64 (2, 2) = 6369051672525773 / 2 ^ 51"
  "norm64 (3, 3) = 4776788754394329 / 2 ^ 50"
  by (simp_all add: norm64_def fl64_one fl64_small fl64_sqrt_2 fl64_sqrt_8 fl64_sqrt_18)

lemma fl64_eps_small: "fl64 (1 / 10 ^ 8) < 1"
proof -
  have "fl64 (1 / 10 ^ 8) \<le> (1 / 10 ^ 8) * (1 + u64)"
    by (rule fl64_nonneg_bounds) simp
  also have "\<dots> < 1" by (simp add: u64_def)
  finally show ?thesis .
qed

lemma measure_complexity_diagonal:
  "measure_complexity [(0, 0), (1, 1), (3, 3)] = 4503599627370497 / 2 ^ 52"
proof -
  have d: "diff64 [(0, 0), (1, 1), (3, 3)] = [(1, 1), (2, 2)]"
    by (simp add: diff64_simps sub64_def fl64_one fl64_small)
  have c: "sub64 (last [(0, 0), (1, 1), (3, 3)]) (hd [(0, 0), (1, 1), (3, 3)]) = (3, 3)"
    by (simp add: sub64_def fl64_small)
  have arc: "sum64 (map norm64 [(1, 1), (2, 2)]) = 4776788754394330 / 2 ^ 50"
    by (simp only: list.map sum64_simps norm64_diag fl64_arc_sum)
  have gt: "fl64 (1 / 10 ^ 8) < 4776788754394329 / 2 ^ 50"
    using fl64_eps_small by simp
  show ?thesis
    unfolding measure_complexity_def Let_def d c arc norm64_diag
    using gt by (simp only: if_True fl64_ratio)
qed

lemma sqrt_18_pos: "\<not> sqrt 18 < 1 / 10 ^ 8"
proof -
  have "(1 :: real) / 10 ^ 8 < 4" by simp
  then show ?thesis using sqrt_18_range(1) by linarith
qed

lemma find_max_deviation_point_diagonal:
  "find_max_deviation_point [(0, 0), (1, 1), (3, 3)] = (Some 0, 0)"
proof -
  have n: "norm2 (3, 3) = sqrt 18"
    by (simp add: norm2_def)
  show ?thesis
    using sqrt_18_pos
    by (simp add: find_max_deviation_point_def Let_def n psub_def pscale_def dot_def argmax_def)
qed

lemma split_and_fit_diagonal:
  "split_and_fit (\<lambda>f init. init) [(0, 0), (1, 1), (3, 3)] 1 (1 / 2)
   = Inr [((0, 0), (3 / 2, 3 / 2), (3, 3), 1)]"
  by (subst split_and_fit.simps)
     (simp add: measure_complexity_diagonal find_max_deviation_point_diagonal
        fit_quadratic_bezier_def pscale_def padd_def)

subsection \<open>Accuracy of the computed metric\<close>

lemma norm2_sub64_upper: "norm2 (sub64 q p) \<le> norm2 (psub q p) * (1 + u64)"
proof -
  define a where "a = fst q - fst p"
  define b where "b = snd q - snd p"
  have u: "0 < 1 + u64" using u64_bounds by simp
  have "\<bar>fl64 a\<bar> \<le> \<bar>a * (1 + u64)\<bar>"
    using fl64_abs_bounds(2) [of a] u by (simp add: abs_mult)
  then have a2: "(fl64 a)\<^sup>2 \<le> (a * (1 + u64))\<^sup>2"
    by (simp only: abs_le_square_iff)
  have "\<bar>fl64 b\<bar> \<le> \<bar>b * (1 + u64)\<bar>"
    using fl64_abs_bounds(2) [of b] u by (simp add: abs_mult)
  then have b2: "(fl64 b)\<^sup>2 \<le> (b * (1 + u64))\<^sup>2"
    by (simp only: abs_le_square_iff)
  have "(fl64 a)\<^sup>2 + (fl64 b)\<^sup>2 \<le> (a * (1 + u64))\<^sup>2 + (b * (1 + u64))\<^sup>2"
    by (rule add_mono [OF a2 b2])
  also have "\<dots> = (a\<^sup>2 + b\<^sup>2) * (1 + u64)\<^sup>2"
    by (simp only: power_mult_distrib distrib_right)
  finally have "(fl64 a)\<^sup>2 + (fl64 b)\<^sup>2 \<le> (a\<^sup>2 + b\<^sup>2) * (1 + u64)\<^sup>2" .
  then have "sqrt ((fl64 a)\<^sup>2 + (fl64 b)\<^sup>2) \<le> sqrt ((a\<^sup>2 + b\<^sup>2) * (1 + u64)\<^sup>2)"
    by (rule real_sqrt_le_mono)
  also have "\<dots> = sqrt (a\<^sup>2 + b\<^sup>2) * (1 + u64)"
    using u by (simp add: real_sqrt_mult)
  finally show ?thesis
    by (simp add: norm2_def sub64_def psub_def a_def b_def)
qed

lemma norm2_sub64_lower: "norm2 (psub q p) * (1 - u64) \<le> norm2 (sub64 q p)"
proof -
  define a where "a = fst q - fst p"
  define b where "b = snd q - snd p"
  have u: "0 < 1 - u64" using u64_bounds by simp
  have "\<bar>a * (1 - u64)\<bar> \<le> \<bar>fl64 a\<bar>"
    using fl64_abs_bounds(1) [of a] u by (simp add: abs_mult)
  then have a2: "(a * (1 - u64))\<^sup>2 \<le> (fl64 a)\<^sup>2"
    by (simp only: abs_le_square_iff)
  have "\<bar>b * (1 - u64)\<bar> \<le> \<bar>fl64 b\<bar>"
    using fl64_abs_bounds(1) [of b] u by (simp add: abs_mult)
  then have b2: "(b * (1 - u64))\<^sup>2 \<le> (fl64 b)\<^sup>2"
    by (simp only: abs_le_square_iff)
  have "(a\<^sup>2 + b\<^sup>2) * (1 - u64)\<^sup>2 = (a * (1 - u64))\<^sup>2 + (b * (1 - u64))\<^sup>2"
    by (simp only: power_mult_distrib distrib_right)
  also have "\<dots> \<le> (fl64 a)\<^sup>2 + (fl64 b)\<^sup>2"
    by (rule add_mono [OF a2 b2])
  finally have "(a\<^sup>2 + b\<^sup>2) * (1 - u64)\<^sup>2 \<le> (fl64 a)\<^sup>2 + (fl64 b)\<^sup>2" .
  then have le: "sqrt ((a\<^sup>2 + b\<^sup>2) * (1 - u64)\<^sup>2) \<le> sqrt ((fl64 a)\<^sup>2 + (fl64 b)\<^sup>2)"
    by (rule real_sqrt_le_mono)
  have eq: "sqrt ((a\<^sup>2 + b\<^sup>2) * (1 - u64)\<^sup>2) = sqrt (a\<^sup>2 + b\<^sup>2) * (1 - u64)"
    using u by (simp add: real_sqrt_mult)
  have "sqrt (a\<^sup>2 + b\<^sup>2) * (1 - u64) \<le> sqrt ((fl64 a)\<^sup>2 + (fl64 b)\<^sup>2)"
    using le by (simp only: eq)
  then show ?thesis
    by (simp add: norm2_def sub64_def psub_def a_def b_def)
qed

lemma norm64_upper: "norm64 v \<le> norm2 v * (1 + u64)\<^sup>2"
proof -
  define x where "x = fst v"
  define y where "y = snd v"
  define T where "T = fl64 (x * x) + fl64 (y * y)"
  have u: "0 < 1 + u64" using u64_bounds by simp
  have A: "fl64 (x * x) \<le> x * x * (1 + u64)" by (rule fl64_nonneg_bounds) simp
  have B: "fl64 (y * y) \<le> y * y * (1 + u64)" by (rule fl64_nonneg_bounds) simp
  have T0: "0 \<le> T"
    unfolding T_def by (intro add_nonneg_nonneg fl64_nonneg_bounds(3)) simp_all
  have T1: "T \<le> (x\<^sup>2 + y\<^sup>2) * (1 + u64)"
    using A B by (simp add: T_def power2_eq_square algebra_simps)
  have "fl64 T \<le> T * (1 + u64)" using T0 by (rule fl64_nonneg_bounds)
  also have "\<dots> \<le> (x\<^sup>2 + y\<^sup>2) * (1 + u64) * (1 + u64)"
    using T1 u by (intro mult_right_mono) simp_all
  finally have S: "fl64 T \<le> (x\<^sup>2 + y\<^sup>2) * (1 + u64)\<^sup>2"
    by (simp add: power2_eq_square algebra_simps)
  have "sqrt (fl64 T) \<le> sqrt ((x\<^sup>2 + y\<^sup>2) * (1 + u64)\<^sup>2)"
    using S by (rule real_sqrt_le_mono)
  also have "\<dots> = sqrt (x\<^sup>2 + y\<^sup>2) * (1 + u64)"
    using u by (simp add: real_sqrt_mult)
  finally have R: "sqrt (fl64 T) \<le> sqrt (x\<^sup>2 + y\<^sup>2) * (1 + u64)" .
  have "0 \<le> sqrt (fl64 T)" using T0 by (simp add: fl64_nonneg_bounds(3))
  then have "fl64 (sqrt (fl64 T)) \<le> sqrt (fl64 T) * (1 + u64)"
    by (rule fl64_nonneg_bounds)
  also have "\<dots> \<le> sqrt (x\<^sup>2 + y\<^sup>2) * (1 + u64) * (1 + u64)"
    using R u by (intro mult_right_mono) simp_all
  finally show ?thesis
    by (simp add: norm64_def norm2_def T_def x_def y_def power2_eq_square algebra_simps)
qed

lemma norm64_lower: "norm2 v * (1 - u64)\<^sup>2 \<le> norm64 v"
proof -
  define x where "x = fst v"
  define y where "y = snd v"
  define T where "T = fl64 (x * x) + fl64 (y * y)"
  have u: "0 < 1 - u64" using u64_bounds by simp
  have A: "x * x * (1 - u64) \<le> fl64 (x * x)" by (rule fl64_nonneg_bounds) simp
  have B: "y * y * (1 - u64) \<le> fl64 (y * y)" by (rule fl64_nonneg_bounds) simp
  have T0: "0 \<le> T"
    unfolding T_def by (intro add_nonneg_nonneg fl64_nonneg_bounds(3)) simp_all
  have T1: "(x\<^sup>2 + y\<^sup>2) * (1 - u64) \<le> T"
    using A B by (simp add: T_def power2_eq_square algebra_simps)
  have "(x\<^sup>2 + y\<^sup>2) * (1 - u64) * (1 - u64) \<le> T * (1 - u64)"
    using T1 u by (intro mult_right_mono) simp_all
  also have "\<dots> \<le> fl64 T" using T0 by (rule fl64_nonneg_bounds)
  finally have S: "(x\<^sup>2 + y\<^sup>2) * (1 - u64)\<^sup>2 \<le> fl64 T"
    by (simp add: power2_eq_square algebra_simps)
  have "sqrt ((x\<^sup>2 + y\<^sup>2) * (1 - u64)\<^sup>2) \<le> sqrt (fl64 T)"
    using S by (rule real_sqrt_le_mono)
  moreover have "sqrt ((x\<^sup>2 + y\<^sup>2) * (1 - u64)\<^sup>2) = sqrt (x\<^sup>2 + y\<^sup>2) * (1 - u64)"
    using u by (simp add: real_sqrt_mult)
  ultimately have R: "sqrt (x\<^sup>2 + y\<^sup>2) * (1 - u64) \<le> sqrt (fl64 T)" by simp
  have s0: "0 \<le> sqrt (fl64 T)" using T0 by (simp add: fl64_nonneg_bounds(3))
  have "sqrt (x\<^sup>2 + y\<^sup>2) * (1 - u64) * (1 - u64) \<le> sqrt (fl64 T) * (1 - u64)"
    using R u by (intro mult_right_mono) simp_all
  also have "\<dots> \<le> fl64 (sqrt (fl64 T))"
    using s0 by (rule fl64_nonneg_bounds)
  finally show ?thesis
    by (simp add: norm64_def norm2_def T_def x_def y_def power2_eq_square algebra_simps)
qed

lemma norm2_nonneg: "0 \<le> norm2 p"
  by (simp add: norm2_def)

lemma norm64_nonneg: "0 \<le> norm64 v"
  unfolding norm64_def
  by (intro fl64_nonneg_bounds(3) real_sqrt_ge_zero add_nonneg_nonneg) simp_all

lemma norm64_sub64_upper: "norm64 (sub64 q p) \<le> norm2 (psub q p) * (1 + u64) ^ 3"
proof -
  have "norm64 (sub64 q p) \<le> norm2 (sub64 q p) * (1 + u64)\<^sup>2"
    by (rule norm64_upper)
  also have "\<dots> \<le> (norm2 (psub q p) * (1 + u64)) * (1 + u64)\<^sup>2"
    by (intro mult_right_mono norm2_sub64_upper) simp
  finally show ?thesis by (simp add: power3_eq_cube power2_eq_square)
qed

lemma norm64_sub64_lower: "norm2 (psub q p) * (1 - u64) ^ 3 \<le> norm64 (sub64 q p)"
proof -
  have "(norm2 (psub q p) * (1 - u64)) * (1 - u64)\<^sup>2 \<le> norm2 (sub64 q p) * (1 - u64)\<^sup>2"
    by (intro mult_right_mono norm2_sub64_lower) simp
  also have "\<dots> \<le> norm64 (sub64 q p)"
    by (rule norm64_lower)
  finally show ?thesis by (simp add: power3_eq_cube power2_eq_square)
qed

lemma foldl_fl64_upper:
  "0 \<le> acc \<Longrightarrow> \<forall>x \<in> set xs. 0 \<le> x \<Longrightarrow>
   0 \<le> foldl (\<lambda>acc y. fl64 (acc + y)) acc xs
   \<and> foldl (\<lambda>acc y. fl64 (acc + y)) acc xs \<le> (acc + sum_list xs) * (1 + u64) ^ length xs"
proof (induction xs arbitrary: acc)
  case Nil
  then show ?case by simp
next
  case (Cons x xs)
  have x: "0 \<le> x" and xs: "\<forall>y \<in> set xs. 0 \<le> y" using Cons.prems by auto
  have s: "0 \<le> sum_list xs" using xs by (intro sum_list_nonneg) auto
  have ax: "0 \<le> acc + x" using Cons.prems(1) x by simp
  have f0: "0 \<le> fl64 (acc + x)" using ax by (rule fl64_nonneg_bounds)
  have f1: "fl64 (acc + x) \<le> (acc + x) * (1 + u64)" using ax by (rule fl64_nonneg_bounds)
  have u: "1 \<le> 1 + u64" using u64_bounds by simp
  have p: "0 \<le> (1 + u64) ^ length xs" using u64_bounds by simp
  note IH = Cons.IH [OF f0 xs]
  have "foldl (\<lambda>acc y. fl64 (acc + y)) (fl64 (acc + x)) xs
        \<le> (fl64 (acc + x) + sum_list xs) * (1 + u64) ^ length xs"
    using IH by simp
  also have "\<dots> \<le> ((acc + x) * (1 + u64) + sum_list xs * (1 + u64)) * (1 + u64) ^ length xs"
  proof (intro mult_right_mono add_mono f1 p)
    show "sum_list xs \<le> sum_list xs * (1 + u64)"
      using s u by (simp add: mult_le_cancel_left1)
  qed
  finally have "foldl (\<lambda>acc y. fl64 (acc + y)) (fl64 (acc + x)) xs
        \<le> (acc + sum_list (x # xs)) * (1 + u64) ^ length (x # xs)"
    by (simp add: algebra_simps)
  then show ?case using IH by simp
qed

lemma sum64_upper:
  assumes "\<forall>x \<in> set xs. 0 \<le> x"
  shows "0 \<le> sum64 xs" and "sum64 xs \<le> sum_list xs * (1 + u64) ^ length xs"
proof -
  have "0 \<le> sum64 xs \<and> sum64 xs \<le> sum_list xs * (1 + u64) ^ length xs"
  proof (cases xs)
    case Nil
    then show ?thesis by (simp add: sum64_def)
  next
    case (Cons x rest)
    have x: "0 \<le> x" and rest: "\<forall>y \<in> set rest. 0 \<le> y" using assms Cons by auto
    have s: "0 \<le> x + sum_list rest"
      using x rest by (intro add_nonneg_nonneg sum_list_nonneg) auto
    have u: "1 \<le> 1 + u64" using u64_bounds by simp
    have p: "0 \<le> (1 + u64) ^ length rest" using u64_bounds by simp
    have "(x + sum_list rest) * (1 + u64) ^ length rest
          \<le> (x + sum_list rest) * ((1 + u64) * (1 + u64) ^ length rest)"
      using s u p by (intro mult_left_mono) (simp_all add: mult_le_cancel_right1)
    then show ?thesis
      using foldl_fl64_upper [OF x rest] Cons by (simp add: sum64_def)
  qed
  then show "0 \<le> sum64 xs" and "sum64 xs \<le> sum_list xs * (1 + u64) ^ length xs" by auto
qed


lemma np_diff_simps:
  "np_diff [] = []" "np_diff [x] = []" "np_diff (x # y # zs) = psub y x # np_diff (y # zs)"
  by (simp_all add: np_diff_def)

lemma sum_norm64_upper:
  "sum_list (map norm64 (diff64 seg)) \<le> sum_list (map norm2 (np_diff seg)) * (1 + u64) ^ 3"
proof (induction seg rule: induct_list012)
  case 1
  then show ?case by (simp add: diff64_simps np_diff_simps)
next
  case (2 x)
  then show ?case by (simp add: diff64_simps np_diff_simps)
next
  case (3 x y zs)
  have "norm64 (sub64 y x) + sum_list (map norm64 (diff64 (y # zs)))
        \<le> norm2 (psub y x) * (1 + u64) ^ 3 + sum_list (map norm2 (np_diff (y # zs))) * (1 + u64) ^ 3"
    by (intro add_mono norm64_sub64_upper "3.IH"(2))
  then show ?case
    by (simp only: diff64_simps np_diff_simps list.map sum_list.Cons distrib_right)
qed

lemma length_diff64: "length (diff64 seg) = length seg - 1"
  by (simp add: diff64_def)

lemma arc64_upper:
  assumes "seg \<noteq> []"
  shows "sum64 (map norm64 (diff64 seg))
         \<le> sum_list (map norm2 (np_diff seg)) * (1 + u64) ^ (length seg + 2)"
    and "0 \<le> sum64 (map norm64 (diff64 seg))"
proof -
  have nn: "\<forall>x \<in> set (map norm64 (diff64 seg)). 0 \<le> x"
    by (auto simp: norm64_nonneg)
  show "0 \<le> sum64 (map norm64 (diff64 seg))" using nn by (rule sum64_upper)
  have p: "0 \<le> (1 + u64) ^ (length seg - 1)" using u64_bounds by simp
  have "sum64 (map norm64 (diff64 seg))
        \<le> sum_list (map norm64 (diff64 seg)) * (1 + u64) ^ length (map norm64 (diff64 seg))"
    using nn by (rule sum64_upper)
  also have "\<dots> = sum_list (map norm64 (diff64 seg)) * (1 + u64) ^ (length seg - 1)"
    by (simp add: length_diff64)
  also have "\<dots> \<le> (sum_list (map norm2 (np_diff seg)) * (1 + u64) ^ 3) * (1 + u64) ^ (length seg - 1)"
    using p by (intro mult_right_mono sum_norm64_upper)
  also have "\<dots> = sum_list (map norm2 (np_diff seg)) * (1 + u64) ^ (3 + (length seg - 1))"
    by (simp only: power_add mult.assoc)
  also have "3 + (length seg - 1) = length seg + 2"
    using assms by (cases seg) simp_all
  finally show "sum64 (map norm64 (diff64 seg))
         \<le> sum_list (map norm2 (np_diff seg)) * (1 + u64) ^ (length seg + 2)" .
qed

lemma fl64_eps_nonneg: "0 \<le> fl64 (1 / 10 ^ 8)"
  by (rule fl64_nonneg_bounds) simp

lemma rounding_factor_ge_one: "1 \<le> (1 + u64) ^ k / (1 - u64) ^ 3"
proof -
  have a: "1 \<le> (1 + u64) ^ k" using u64_bounds by (intro one_le_power) simp
  have b: "(1 - u64) ^ 3 \<le> 1" using u64_bounds by (intro power_le_one) simp_all
  have c: "0 < (1 - u64) ^ 3" using u64_bounds by simp
  show ?thesis using a b c by (simp add: le_divide_eq)
qed

lemma measure_complexity_upper:
  assumes "seg \<noteq> []" and "1 \<le> r"
    and "sum_list (map norm2 (np_diff seg)) \<le> r * norm2 (psub (last seg) (hd seg))"
  shows "measure_complexity seg \<le> r * ((1 + u64) ^ (length seg + 3) / (1 - u64) ^ 3)"
proof -
  define chord where "chord = norm64 (sub64 (last seg) (hd seg))"
  define arc where "arc = sum64 (map norm64 (diff64 seg))"
  define D where "D = norm2 (psub (last seg) (hd seg))"
  define k where "k = length seg + 2"
  have up: "0 < 1 + u64" and um: "0 < 1 - u64" using u64_bounds by simp_all
  have m: "measure_complexity seg = (if chord > fl64 (1 / 10 ^ 8) then fl64 (arc / chord) else 1)"
    by (simp add: measure_complexity_def Let_def chord_def arc_def)
  show ?thesis
  proof (cases "chord > fl64 (1 / 10 ^ 8)")
    case False
    have "1 * 1 \<le> r * ((1 + u64) ^ (length seg + 3) / (1 - u64) ^ 3)"
      using assms(2) rounding_factor_ge_one by (intro mult_mono) simp_all
    then show ?thesis using False m by simp
  next
    case True
    then have cpos: "0 < chord" using fl64_eps_nonneg by linarith
    have cu: "chord \<le> D * (1 + u64) ^ 3"
      unfolding chord_def D_def by (rule norm64_sub64_upper)
    have cl: "D * (1 - u64) ^ 3 \<le> chord"
      unfolding chord_def D_def by (rule norm64_sub64_lower)
    have D0: "0 \<le> D" by (simp add: D_def norm2_nonneg)
    have Dpos: "0 < D"
    proof (rule ccontr)
      assume "\<not> 0 < D"
      then have "D = 0" using D0 by simp
      then show False using cu cpos by simp
    qed
    have lpos: "0 < D * (1 - u64) ^ 3" using Dpos um by simp
    have a0: "0 \<le> arc" unfolding arc_def using assms(1) by (rule arc64_upper)
    have "arc \<le> sum_list (map norm2 (np_diff seg)) * (1 + u64) ^ k"
      unfolding arc_def k_def using assms(1) by (rule arc64_upper)
    also have "\<dots> \<le> (r * D) * (1 + u64) ^ k"
      using assms(3) up by (intro mult_right_mono) (simp_all add: D_def)
    finally have au: "arc \<le> (r * D) * (1 + u64) ^ k" .
    have y0: "0 \<le> (r * D) * (1 + u64) ^ k" using a0 au by linarith
    have "arc / chord \<le> ((r * D) * (1 + u64) ^ k) / (D * (1 - u64) ^ 3)"
      using y0 au lpos cl by (rule frac_le)
    also have "\<dots> = r * ((1 + u64) ^ k / (1 - u64) ^ 3)"
      using Dpos by simp
    finally have q: "arc / chord \<le> r * ((1 + u64) ^ k / (1 - u64) ^ 3)" .
    have q0: "0 \<le> arc / chord" using a0 cpos by simp
    have "fl64 (arc / chord) \<le> (arc / chord) * (1 + u64)"
      using q0 by (rule fl64_nonneg_bounds)
    also have "\<dots> \<le> (r * ((1 + u64) ^ k / (1 - u64) ^ 3)) * (1 + u64)"
      using q up by (intro mult_right_mono) simp_all
    also have "\<dots> = r * ((1 + u64) ^ Suc k / (1 - u64) ^ 3)"
      by simp
    also have "Suc k = length seg + 3"
      by (simp add: k_def)
    finally show ?thesis using True m by simp
  qed
qed

lemma norm2_pscale: "norm2 (pscale c p) = \<bar>c\<bar> * norm2 p"
proof -
  have "(c * fst p)\<^sup>2 + (c * snd p)\<^sup>2 = c\<^sup>2 * ((fst p)\<^sup>2 + (snd p)\<^sup>2)"
    by (simp add: power_mult_distrib algebra_simps)
  then show ?thesis
    by (simp add: norm2_def pscale_def real_sqrt_mult)
qed

lemma psub_along: "psub (along a d t) (along a d s) = pscale (t - s) d"
  by (simp add: along_def psub_def padd_def pscale_def algebra_simps)

lemma arc_collinear:
  "sorted (s # ss) \<Longrightarrow>
   sum_list (map norm2 (np_diff (map (along a d) (s # ss)))) = (last (s # ss) - s) * norm2 d"
proof (induction ss arbitrary: s)
  case Nil
  then show ?case by (simp add: np_diff_simps)
next
  case (Cons t ss)
  then have st: "s \<le> t" and sorted: "sorted (t # ss)" by auto
  have n: "norm2 (pscale (t - s) d) = (t - s) * norm2 d"
    using st by (simp add: norm2_pscale)
  have "sum_list (map norm2 (np_diff (map (along a d) (s # t # ss))))
        = norm2 (pscale (t - s) d) + sum_list (map norm2 (np_diff (map (along a d) (t # ss))))"
    by (simp add: np_diff_simps psub_along)
  also have "\<dots> = (t - s) * norm2 d + (last (t # ss) - t) * norm2 d"
    by (simp only: Cons.IH [OF sorted] n)
  finally show ?case by (simp add: algebra_simps)
qed

lemma collinear_arc_is_chord:
  assumes "sorted ss" and "ss \<noteq> []"
  shows "sum_list (map norm2 (np_diff (map (along a d) ss)))
         = norm2 (psub (last (map (along a d) ss)) (hd (map (along a d) ss)))"
proof -
  from assms(2) obtain s rest where ss: "ss = s # rest" by (cases ss) auto
  have "last (s # rest) \<in> set (s # rest)"
    by (rule last_in_set) simp
  then have le: "s \<le> last (s # rest)"
    using assms(1) ss by (auto simp del: last.simps)
  have arc: "sum_list (map norm2 (np_diff (map (along a d) (s # rest)))) = (last (s # rest) - s) * norm2 d"
    using assms(1) ss by (intro arc_collinear) simp
  have l: "last (map (along a d) (s # rest)) = along a d (last (s # rest))"
    by (rule last_map) simp
  have h: "hd (map (along a d) (s # rest)) = along a d s"
    by simp
  have n: "norm2 (pscale (last (s # rest) - s) d) = (last (s # rest) - s) * norm2 d"
    using le by (simp add: norm2_pscale del: last.simps)
  have chord: "norm2 (psub (last (map (along a d) (s # rest))) (hd (map (along a d) (s # rest))))
        = (last (s # rest) - s) * norm2 d"
    by (simp only: l h psub_along n)
  show ?thesis
    unfolding ss arc chord ..
qed

lemma measure_complexity_collinear:
  assumes "sorted ss" and "ss \<noteq> []"
  shows "measure_complexity (map (along a d) ss) \<le> (1 + u64) ^ (length ss + 3) / (1 - u64) ^ 3"
proof -
  have "measure_complexity (map (along a d) ss)
        \<le> 1 * ((1 + u64) ^ (length (map (along a d) ss) + 3) / (1 - u64) ^ 3)"
    using assms by (intro measure_complexity_upper) (simp_all add: collinear_arc_is_chord)
  then show ?thesis by simp
qed

lemma power_times_defect: "0 \<le> x \<Longrightarrow> (1 + x) ^ k * (1 - real k * x) \<le> (1 :: real)"
proof (induction k)
  case 0
  then show ?case by simp
next
  case (Suc k)
  have p: "0 \<le> (1 + x) ^ Suc k" using Suc.prems by simp
  show ?case
  proof (cases "1 - real (Suc k) * x \<le> 0")
    case True
    then have "(1 + x) ^ Suc k * (1 - real (Suc k) * x) \<le> 0"
      using p by (intro mult_nonneg_nonpos) simp_all
    then show ?thesis by linarith
  next
    case False
    have "(1 + x) * (1 - real (Suc k) * x) = 1 - real k * x - real (Suc k) * x * x"
      by (simp add: algebra_simps)
    also have "\<dots> \<le> 1 - real k * x"
      using Suc.prems by simp
    finally have s: "(1 + x) * (1 - real (Suc k) * x) \<le> 1 - real k * x" .
    have "(1 + x) ^ Suc k * (1 - real (Suc k) * x) = (1 + x) ^ k * ((1 + x) * (1 - real (Suc k) * x))"
      by simp
    also have "\<dots> \<le> (1 + x) ^ k * (1 - real k * x)"
      using s Suc.prems by (intro mult_left_mono) simp_all
    also have "\<dots> \<le> 1" using Suc.prems by (rule Suc.IH)
    finally show ?thesis .
  qed
qed

lemma default_threshold_suffices:
  assumes "n \<le> 10 ^ 9" and "101 / 100 \<le> tc"
  shows "(1 + u64) ^ (n + 3) / (1 - u64) ^ 3 \<le> tc"
proof -
  define k where "k = n + 3"
  have k: "real k \<le> 10 ^ 9 + 3" using assms(1) by (simp add: k_def)
  have "real k * u64 \<le> (10 ^ 9 + 3) * u64"
    using k u64_bounds by (intro mult_right_mono) simp_all
  also have "\<dots> \<le> 1 / 1000" by (simp add: u64_def)
  finally have d: "999 / 1000 \<le> 1 - real k * u64" by simp
  have p0: "0 \<le> (1 + u64) ^ k" using u64_bounds by simp
  have "(1 + u64) ^ k * (999 / 1000) \<le> (1 + u64) ^ k * (1 - real k * u64)"
    using d p0 by (intro mult_left_mono)
  also have "\<dots> \<le> 1" using u64_bounds by (intro power_times_defect) simp
  finally have pk: "(1 + u64) ^ k \<le> 1000 / 999" by simp
  have "1 + real 3 * (- u64) \<le> (1 + (- u64)) ^ 3"
    using u64_bounds by (intro Bernoulli_inequality) simp
  then have "1 - 3 * u64 \<le> (1 - u64) ^ 3" by simp
  moreover have "999 / 1000 \<le> 1 - 3 * u64" by (simp add: u64_def)
  ultimately have c: "999 / 1000 \<le> (1 - u64) ^ 3" by linarith
  have "(1 + u64) ^ k / (1 - u64) ^ 3 \<le> (1000 / 999) / (999 / 1000)"
    using p0 pk c by (intro frac_le) simp_all
  also have "\<dots> \<le> 101 / 100" by simp
  finally have "(1 + u64) ^ k / (1 - u64) ^ 3 \<le> 101 / 100" .
  then show ?thesis using assms(2) unfolding k_def by linarith
qed

subsection \<open>Straight sequences\<close>

lemma measure_complexity_two_points: "measure_complexity [a, b] = 1"
proof -
  define c where "c = norm64 (sub64 b a)"
  have m: "measure_complexity [a, b] = (if c > fl64 (1 / 10 ^ 8) then fl64 (c / c) else 1)"
    by (simp add: measure_complexity_def Let_def diff64_simps sum64_simps c_def)
  show ?thesis
  proof (cases "c > fl64 (1 / 10 ^ 8)")
    case True
    then have "c \<noteq> 0" using fl64_eps_nonneg by linarith
    then show ?thesis using True m by (simp add: fl64_one)
  next
    case False
    then show ?thesis using m by simp
  qed
qed

lemma sqrt_squares: "sqrt 9 = 3" "sqrt 16 = 4" "sqrt 25 = 5"
  by (rule real_sqrt_unique; simp)+

lemma measure_complexity_L_shape: "measure_complexity [(0, 0), (3, 0), (3, 4)] = fl64 (7 / 5)"
proof -
  have d: "diff64 [(0, 0), (3, 0), (3, 4)] = [(3, 0), (0, 4)]"
    by (simp add: diff64_simps sub64_def fl64_zero fl64_small)
  have c: "sub64 (last [(0, 0), (3, 0), (3, 4)]) (hd [(0, 0), (3, 0), (3, 4)]) = (3, 4)"
    by (simp add: sub64_def fl64_small)
  have n: "norm64 (3, 0) = 3" "norm64 (0, 4) = 4" "norm64 (3, 4) = 5"
    by (simp_all add: norm64_def fl64_zero fl64_small sqrt_squares)
  have arc: "sum64 (map norm64 [(3, 0), (0, 4)]) = 7"
    by (simp add: sum64_simps n fl64_small)
  have gt: "fl64 (1 / 10 ^ 8) < 5"
    using fl64_eps_small by simp
  show ?thesis
    unfolding measure_complexity_def Let_def d c arc n
    using gt by (simp only: if_True)
qed

lemma measure_complexity_L_shape_large: "\<not> measure_complexity [(0, 0), (3, 0), (3, 4)] \<le> 101 / 100"
proof -
  have "(7 / 5) * (1 - u64) \<le> fl64 (7 / 5)"
    by (rule fl64_nonneg_bounds) simp
  moreover have "101 / 100 < (7 / 5) * (1 - u64)"
    by (simp add: u64_def)
  ultimately have "101 / 100 < fl64 (7 / 5)" by linarith
  then show ?thesis
    by (simp only: measure_complexity_L_shape not_le)
qed

lemma find_max_deviation_point_L_shape: "find_max_deviation_point [(0, 0), (3, 0), (3, 4)] = (Some 1, 12 / 5)"
  by (simp add: find_max_deviation_point_def psub_def pscale_def dot_def norm2_def
      argmax_def Let_def sqrt_squares)

lemma split_and_fit_two_axis:
  "split_and_fit minimize [(0, 0), (3, 0)] (101 / 100) (1 / 2) = Inr [((0, 0), (0, 0), (3, 0), 0)]"
  "split_and_fit minimize [(3, 0), (3, 4)] (101 / 100) (1 / 2) = Inr [((3, 0), (3, 0), (3, 4), 0)]"
  by (subst split_and_fit.simps, simp add: measure_complexity_two_points)+

lemma split_and_fit_L_shape:
  "split_and_fit minimize [(0, 0), (3, 0), (3, 4)] (101 / 100) (1 / 2)
   = Inr [((0, 0), (0, 0), (3, 0), 0), ((3, 0), (3, 0), (3, 4), 0)]"
  using measure_complexity_L_shape_large
  by (subst split_and_fit.simps)
     (simp add: find_max_deviation_point_L_shape,
      simp add: split_and_fit_two_axis)

lemma split_and_fit_straight:
  assumes "segment \<noteq> []" and "measure_complexity segment \<le> tc"
  shows "split_and_fit minimize segment tc td = Inr [(hd segment, hd segment, last segment, 0)]"
  using assms by (subst split_and_fit.simps) simp

lemma split_and_fit_collinear:
  assumes "sorted ss" and "ss \<noteq> []" and "(1 + u64) ^ (length ss + 3) / (1 - u64) ^ 3 \<le> tc"
  shows "split_and_fit minimize (map (along p d) ss) tc td
         = Inr [(along p d (hd ss), along p d (hd ss), along p d (last ss), 0)]"
proof -
  have "measure_complexity (map (along p d) ss) \<le> (1 + u64) ^ (length ss + 3) / (1 - u64) ^ 3"
    using assms(1,2) by (rule measure_complexity_collinear)
  then have "measure_complexity (map (along p d) ss) \<le> tc"
    using assms(3) by linarith
  moreover have "map (along p d) ss \<noteq> []" using assms(2) by simp
  ultimately have "split_and_fit minimize (map (along p d) ss) tc td
      = Inr [(hd (map (along p d) ss), hd (map (along p d) ss), last (map (along p d) ss), 0)]"
    by (rule split_and_fit_straight [rotated])
  then show ?thesis
    using assms(2) by (simp add: hd_map last_map)
qed

lemma two_points_along: "map (along a (psub b a)) [0, 1] = [a, b]"
  by (simp add: along_def psub_def padd_def pscale_def)

text \<open>
  C7. A point sequence whose computed straightness metric (arc length over chord
  length, in float64) is at most \<open>threshold_complex\<close> is fitted by exactly one segment of
  type 0 (Line) from its first to its last point, the control slot holding the first
  point again. On a collinear monotone sequence of \<open>n\<close> points with moderate steps the
  computed metric is at most \<open>(1 + u64) ^ (n + 3) / (1 - u64) ^ 3\<close>: rounding can put it
  above 1. So the sequence is fitted by that one line when \<open>threshold_complex\<close> is at
  least this bound, as the default 1.01 is for up to \<open>10 ^ 9\<close> points; any two points are
  such a sequence.
\<close>

theorem collinear_sequence_is_one_line:
  "(segment \<noteq> [] \<and> measure_complexity segment \<le> tc \<longrightarrow>
      split_and_fit minimize segment tc td = Inr [(hd segment, hd segment, last segment, 0)]
      \<and> type_flag (hd segment, hd segment, last segment, 0) = 0)
   \<and> (sorted ss \<and> ss \<noteq> [] \<and> moderate_steps (map (along p d) ss) \<longrightarrow>
        measure_complexity (map (along p d) ss) \<le> (1 + u64) ^ (length ss + 3) / (1 - u64) ^ 3)
   \<and> (sorted ss \<and> ss \<noteq> [] \<and> moderate_steps (map (along p d) ss)
        \<and> (1 + u64) ^ (length ss + 3) / (1 - u64) ^ 3 \<le> tc \<longrightarrow>
        split_and_fit minimize (map (along p d) ss) tc td
        = Inr [(along p d (hd ss), along p d (hd ss), along p d (last ss), 0)])
   \<and> (sorted ss \<and> ss \<noteq> [] \<and> moderate_steps (map (along p d) ss)
        \<and> length ss \<le> 10 ^ 9 \<and> 101 / 100 \<le> tc \<longrightarrow>
        split_and_fit minimize (map (along p d) ss) tc td
        = Inr [(along p d (hd ss), along p d (hd ss), along p d (last ss), 0)])
   \<and> (moderate_steps [a, b] \<and> 101 / 100 \<le> tc \<longrightarrow>
        split_and_fit minimize [a, b] tc td = Inr [(a, a, b, 0)])"
proof (intro conjI impI)
  assume "segment \<noteq> [] \<and> measure_complexity segment \<le> tc"
  then show "split_and_fit minimize segment tc td = Inr [(hd segment, hd segment, last segment, 0)]"
    by (simp add: split_and_fit_straight)
next
  show "type_flag (hd segment, hd segment, last segment, 0) = 0"
    by (simp add: type_flag_def)
next
  assume "sorted ss \<and> ss \<noteq> [] \<and> moderate_steps (map (along p d) ss)"
  then show "measure_complexity (map (along p d) ss) \<le> (1 + u64) ^ (length ss + 3) / (1 - u64) ^ 3"
    by (intro measure_complexity_collinear) simp_all
next
  assume "sorted ss \<and> ss \<noteq> [] \<and> moderate_steps (map (along p d) ss)
        \<and> (1 + u64) ^ (length ss + 3) / (1 - u64) ^ 3 \<le> tc"
  then show "split_and_fit minimize (map (along p d) ss) tc td
        = Inr [(along p d (hd ss), along p d (hd ss), along p d (last ss), 0)]"
    by (intro split_and_fit_collinear) simp_all
next
  assume h: "sorted ss \<and> ss \<noteq> [] \<and> moderate_steps (map (along p d) ss)
        \<and> length ss \<le> 10 ^ 9 \<and> 101 / 100 \<le> tc"
  then have "(1 + u64) ^ (length ss + 3) / (1 - u64) ^ 3 \<le> tc"
    by (intro default_threshold_suffices) simp_all
  then show "split_and_fit minimize (map (along p d) ss) tc td
        = Inr [(along p d (hd ss), along p d (hd ss), along p d (last ss), 0)]"
    using h by (intro split_and_fit_collinear) simp_all
next
  assume h: "moderate_steps [a, b] \<and> 101 / 100 \<le> tc"
  have "(1 + u64) ^ (length [0, 1 :: real] + 3) / (1 - u64) ^ 3 \<le> tc"
    using h by (intro default_threshold_suffices) simp_all
  then have "split_and_fit minimize (map (along a (psub b a)) [0, 1]) tc td
        = Inr [(along a (psub b a) (hd [0, 1]), along a (psub b a) (hd [0, 1]),
                along a (psub b a) (last [0, 1]), 0)]"
    by (intro split_and_fit_collinear) simp_all
  then show "split_and_fit minimize [a, b] tc td = Inr [(a, a, b, 0)]"
    using two_points_along [of a b] by simp
qed

theorem collinear_sequence_is_one_line_witness:
  "split_and_fit (\<lambda>f init. init) [(0, 0), (3, 0)] (101 / 100) (1 / 2)
     = Inr [((0, 0), (0, 0), (3, 0), 0)]
   \<and> moderate_steps [(0, 0), (1, 1), (3, 3)]
   \<and> measure_complexity [(0, 0), (1, 1), (3, 3)] \<le> (1 + u64) ^ 6 / (1 - u64) ^ 3
   \<and> split_and_fit (\<lambda>f init. init) [(0, 0), (1, 1), (3, 3)] (101 / 100) (1 / 2)
     = Inr [((0, 0), (0, 0), (3, 3), 0)]
   \<and> moderate_steps [(0, 0), (3, 4)]
   \<and> split_and_fit (\<lambda>f init. init) [(0, 0), (3, 4)] (101 / 100) (1 / 2)
     = Inr [((0, 0), (0, 0), (3, 4), 0)]"
proof -
  have m: "measure_complexity [(0, 0), (3, 0)] \<le> 101 / 100"
    by (simp add: measure_complexity_two_points)
  have s: "sorted [0, 1, 3 :: real]" by simp
  have b: "(1 + u64) ^ 6 / (1 - u64) ^ 3 \<le> 101 / 100"
    using default_threshold_suffices [of 3 "101 / 100"] by simp
  have r: "moderate_steps [(0, 0), (1, 1), (3, 3)]" "moderate_steps [(0, 0), (3, 4)]"
    by (simp_all add: moderate_steps_def moderate_def np_diff_simps psub_def)
  show ?thesis
    using m s b r
      collinear_sequence_is_one_line [of "[(0, 0), (3, 0)]" "101 / 100" "\<lambda>f init. init" "1 / 2"
        "[0, 1, 3]" "(0, 0)" "(1, 1)" "(0, 0)" "(3, 4)"]
    by (simp add: along_def padd_def pscale_def)
qed

theorem collinear_sequence_fitted_as_quadratic:
  "sorted [0, 1, 3 :: real]
   \<and> map (along (0, 0) (1, 1)) [0, 1, 3] = [(0, 0), (1, 1), (3, 3)]
   \<and> moderate_steps [(0, 0), (1, 1), (3, 3)]
   \<and> measure_complexity [(0, 0), (1, 1), (3, 3)] = 4503599627370497 / 2 ^ 52
   \<and> \<not> measure_complexity [(0, 0), (1, 1), (3, 3)] \<le> 1
   \<and> split_and_fit (\<lambda>f init. init) [(0, 0), (1, 1), (3, 3)] 1 (1 / 2)
     = Inr [((0, 0), (3 / 2, 3 / 2), (3, 3), 1)]
   \<and> type_flag ((0, 0), (3 / 2, 3 / 2), (3, 3), 1) = 1"
  by (simp add: measure_complexity_diagonal split_and_fit_diagonal type_flag_def
      along_def padd_def pscale_def moderate_steps_def moderate_def np_diff_simps psub_def)

lemma split_and_fit_split:
  assumes "segment \<noteq> []" and "\<not> measure_complexity segment \<le> tc"
    and "find_max_deviation_point segment = (Some i, dev)"
    and "\<not> (dev \<le> td \<or> Some i = Some 0 \<or> Some i = Some (length segment - 1))"
  shows "split_and_fit minimize segment tc td =
    (case split_and_fit minimize (take (i + 1) segment) tc td of
       Inl e \<Rightarrow> Inl e
     | Inr first \<Rightarrow>
         (case split_and_fit minimize (drop i segment) tc td of
            Inl e \<Rightarrow> Inl e
          | Inr second \<Rightarrow> Inr (first @ second)))"
  using assms by (subst split_and_fit.simps) simp

text \<open>
  C8. Whenever the fitter reaches its split, the max-deviation index is strictly
  interior, both halves are strictly shorter than the segment (and have at least 2
  points), and the result is the concatenation of the two recursive results. The
  recursion returns within a depth of the point count: with that depth bound the
  depth-bounded fitter returns the fitter's own result.
\<close>

theorem split_and_fit_recursion_shrinks:
  "(segment \<noteq> [] \<and> \<not> measure_complexity segment \<le> tc
      \<and> find_max_deviation_point segment = (Some i, dev)
      \<and> \<not> (dev \<le> td \<or> Some i = Some 0 \<or> Some i = Some (length segment - 1)) \<longrightarrow>
      0 < i \<and> i < length segment - 1
      \<and> length (take (i + 1) segment) < length segment
      \<and> length (drop i segment) < length segment
      \<and> 2 \<le> length (take (i + 1) segment) \<and> 2 \<le> length (drop i segment)
      \<and> split_and_fit minimize segment tc td =
          (case split_and_fit minimize (take (i + 1) segment) tc td of
             Inl e \<Rightarrow> Inl e
           | Inr first \<Rightarrow>
               (case split_and_fit minimize (drop i segment) tc td of
                  Inl e \<Rightarrow> Inl e
                | Inr second \<Rightarrow> Inr (first @ second))))
   \<and> (2 \<le> length segment \<longrightarrow>
        split_and_fit_depth (length segment) minimize segment tc td
        = Some (split_and_fit minimize segment tc td))
   \<and> (2 \<le> length segment \<and> length segment \<le> n \<longrightarrow>
        split_and_fit_depth n minimize segment tc td
        = Some (split_and_fit minimize segment tc td))"
proof (intro conjI impI)
  assume h: "segment \<noteq> [] \<and> \<not> measure_complexity segment \<le> tc
      \<and> find_max_deviation_point segment = (Some i, dev)
      \<and> \<not> (dev \<le> td \<or> Some i = Some 0 \<or> Some i = Some (length segment - 1))"
  then have int: "0 < i \<and> i < length segment - 1"
    by (intro split_index_interior [where dev = dev and td = td]) auto
  from int show "0 < i" "i < length segment - 1" by auto
  from int have si: "i + 1 < length segment" by linarith
  from si show "length (take (i + 1) segment) < length segment" by simp
  from int si show "length (drop i segment) < length segment" by (simp, linarith)
  from int si show "2 \<le> length (take (i + 1) segment)" by simp
  from si show "2 \<le> length (drop i segment)" by simp
  from h show "split_and_fit minimize segment tc td =
          (case split_and_fit minimize (take (i + 1) segment) tc td of
             Inl e \<Rightarrow> Inl e
           | Inr first \<Rightarrow>
               (case split_and_fit minimize (drop i segment) tc td of
                  Inl e \<Rightarrow> Inl e
                | Inr second \<Rightarrow> Inr (first @ second)))"
    by (intro split_and_fit_split [where dev = dev]) auto
next
  assume "2 \<le> length segment"
  then show "split_and_fit_depth (length segment) minimize segment tc td
        = Some (split_and_fit minimize segment tc td)"
    by (intro depth_suffices) auto
next
  assume "2 \<le> length segment \<and> length segment \<le> n"
  then show "split_and_fit_depth n minimize segment tc td
        = Some (split_and_fit minimize segment tc td)"
    by (intro depth_suffices) auto
qed

theorem split_and_fit_recursion_shrinks_witness:
  "find_max_deviation_point [(0, 0), (3, 0), (3, 4)] = (Some 1, 12 / 5)
   \<and> length (take 2 ([(0, 0), (3, 0), (3, 4)] :: point list)) < 3
   \<and> length (drop 1 ([(0, 0), (3, 0), (3, 4)] :: point list)) < 3
   \<and> split_and_fit_depth 3 (\<lambda>f init. init) [(0, 0), (3, 0), (3, 4)] (101 / 100) (1 / 2)
      = Some (Inr [((0, 0), (0, 0), (3, 0), 0), ((3, 0), (3, 0), (3, 4), 0)])"
proof -
  have c: "\<not> measure_complexity [(0, 0), (3, 0), (3, 4)] \<le> 101 / 100"
    by (rule measure_complexity_L_shape_large)
  show ?thesis
    using c find_max_deviation_point_L_shape split_and_fit_L_shape [of "\<lambda>f init. init"]
      split_and_fit_recursion_shrinks [of "[(0, 0), (3, 0), (3, 4)]" "101 / 100" 1 "12 / 5"
        "1 / 2" "\<lambda>f init. init" 3]
    by simp
qed

text \<open>
  C10. Every segment the recursive fitter returns carries type flag 0 (Line) or 1
  (Quadratic), never 2, although the evaluator's sentinel decoding has a third class:
  a row with a non-negative first control pair decodes to 2 (Cubic).
\<close>

theorem split_and_fit_never_cubic:
  "(split_and_fit minimize segment tc td = Inr segs \<and> s \<in> set segs \<longrightarrow>
      (type_flag s = 0 \<or> type_flag s = 1) \<and> type_flag s \<noteq> 2)
   \<and> (0 \<le> c1x r \<longrightarrow> gt_type r = 2)"
proof (intro conjI impI)
  assume h: "split_and_fit minimize segment tc td = Inr segs \<and> s \<in> set segs"
  then show t: "type_flag s = 0 \<or> type_flag s = 1"
    using split_and_fit_type_flags [of minimize segment tc td segs s] by simp
  then show "type_flag s \<noteq> 2" by auto
next
  assume "0 \<le> c1x r"
  then show "gt_type r = 2" by (simp add: gt_type_def)
qed

theorem split_and_fit_never_cubic_witness:
  "split_and_fit (\<lambda>f init. init) [(0, 0), (3, 0), (3, 4)] (101 / 100) (1 / 2)
     = Inr [((0, 0), (0, 0), (3, 0), 0), ((3, 0), (3, 0), (3, 4), 0)]
   \<and> type_flag ((3, 0), (3, 0), (3, 4), 0) = 0
   \<and> gt_type (mk_row (1 / 5) (3 / 10) (2 / 5) (1 / 2) (3 / 5) (7 / 10)) = 2"
  using split_and_fit_L_shape [of "\<lambda>f init. init"]
    split_and_fit_never_cubic [of "\<lambda>f init. init" "[(0, 0), (3, 0), (3, 4)]" "101 / 100" "1 / 2"
      "[((0, 0), (0, 0), (3, 0), 0), ((3, 0), (3, 0), (3, 4), 0)]" "((3, 0), (3, 0), (3, 4), 0)"
      "mk_row (1 / 5) (3 / 10) (2 / 5) (1 / 2) (3 / 5) (7 / 10)"]
  by (simp add: mk_row_def type_flag_def)

section \<open>Coordinate loss: proofs\<close>

lemma valid_mask_nth:
  "b < length lengths \<Longrightarrow> s < S \<Longrightarrow>
   valid_mask S lengths ! b ! s = (if int s < lengths ! b then 1 else 0)"
  by (simp add: valid_mask_def)

lemma valid_mask_example: "valid_mask 6 [3, 5] = [[1, 1, 1, 0, 0, 0], [1, 1, 1, 1, 1, 0]]"
  by (simp add: valid_mask_def upt_rec)

lemma FLT_MAX_pos: "0 < FLT_MAX"
  by (simp add: FLT_MAX_def)

lemma overflow_zero: "overflow 0 = Fin 0"
  using FLT_MAX_pos by (simp add: overflow_def)

lemma in_range_overflow: "in_range (overflow x)"
  by (auto simp: in_range_def overflow_def)

lemma overflow_in_range: "\<bar>a\<bar> \<le> FLT_MAX \<Longrightarrow> overflow a = Fin a"
  by (auto simp: overflow_def)

lemma in_range_fadd: "in_range (fadd x y)"
  by (cases x; cases y) (simp_all add: in_range_overflow, simp_all add: in_range_def)

lemma in_range_fsum: "in_range (fsum xs)"
  using FLT_MAX_pos by (cases xs) (simp_all add: in_range_fadd, simp add: in_range_def)

lemma in_range_fabs: "in_range x \<Longrightarrow> in_range (fabs x)"
  by (cases x) (simp_all add: in_range_def)

lemma in_range_fsub: "in_range (fsub x y)"
  by (simp add: fsub_def in_range_fadd)

lemma fadd_zero_left: "in_range y \<Longrightarrow> fadd (Fin 0) y = y"
  by (cases y) (simp_all add: in_range_def overflow_in_range)

lemma fmul_one: "in_range x \<Longrightarrow> fmul x (Fin 1) = x"
  by (cases x) (simp_all add: in_range_def overflow_in_range)

lemma fmul_zero_finite: "finite_f32 x \<Longrightarrow> fmul x (Fin 0) = Fin 0"
  by (cases x) (simp_all add: finite_f32_def overflow_zero)

lemma length_f32_vals: "length (f32_vals r) = 6"
  by (simp add: f32_vals_def)

lemma length_abs_diffs: "length (abs_diffs p g) = 6"
  by (simp add: abs_diffs_def length_f32_vals)

lemma row_err_abs_diffs: "row_err p g m = map (\<lambda>d. fmul d (Fin m)) (abs_diffs p g)"
  by (simp add: row_err_def abs_diffs_def comp_def case_prod_beta)

lemma row_err_zero: "finite_abs_diff p g \<Longrightarrow> row_err p g 0 = replicate 6 (Fin 0)"
proof -
  assume f: "finite_abs_diff p g"
  have "map (\<lambda>d. fmul d (Fin 0)) (abs_diffs p g) = map (\<lambda>d. Fin 0) (abs_diffs p g)"
    using f by (intro map_cong refl fmul_zero_finite) (auto simp: finite_abs_diff_def list_all_iff)
  then show ?thesis
    by (simp add: row_err_abs_diffs map_replicate_const length_abs_diffs)
qed

lemma in_range_abs_diffs: "d \<in> set (abs_diffs p g) \<Longrightarrow> in_range d"
  by (auto simp: abs_diffs_def in_range_fabs in_range_fsub)

lemma row_err_one: "row_err p g 1 = abs_diffs p g"
proof -
  have "map (\<lambda>d. fmul d (Fin 1)) (abs_diffs p g) = map (\<lambda>d. d) (abs_diffs p g)"
    by (intro map_cong refl fmul_one in_range_abs_diffs)
  then show ?thesis by (simp add: row_err_abs_diffs)
qed

lemma fsum_zeros: "fsum (replicate n (Fin 0)) = Fin 0"
  by (induction n) (simp_all add: overflow_zero)


lemma zip3_nth_map:
  "zip xs (zip ys zs) = map (\<lambda>i. (xs ! i, ys ! i, zs ! i)) [0..<min (length xs) (min (length ys) (length zs))]"
  by (rule nth_equalityI) auto

lemma sample_err_index:
  "sample_err ps gs ms =
   map (\<lambda>s. row_err (ps ! s) (gs ! s) (ms ! s)) [0..<min (length ps) (min (length gs) (length ms))]"
  unfolding sample_err_def by (subst zip3_nth_map) (simp add: comp_def)

lemma curve_err_index:
  "curve_err prd gt msk =
   map (\<lambda>b. sample_err (prd ! b) (gt ! b) (msk ! b)) [0..<min (length prd) (min (length gt) (length msk))]"
  unfolding curve_err_def by (subst zip3_nth_map) (simp add: comp_def)

lemma length_perturb_invalid [simp]: "length (perturb_invalid L q t) = length t"
  by (simp add: perturb_invalid_def)

lemma perturb_invalid_nth:
  "b < length t \<Longrightarrow> perturb_invalid L q t ! b =
     map (\<lambda>s. if int s < L ! b then t ! b ! s else q b s) [0..<length (t ! b)]"
  by (simp add: perturb_invalid_def)

lemma size1_perturb_invalid: "size1 (perturb_invalid L q t) = size1 t"
proof (cases t)
  case Nil
  then show ?thesis by (simp add: perturb_invalid_def size1_def)
next
  case (Cons x xs)
  then have "hd (perturb_invalid L q t) = perturb_invalid L q t ! 0"
    by (intro hd_conv_nth) (simp add: perturb_invalid_def)
  then show ?thesis
    using Cons by (simp add: size1_def perturb_invalid_nth)
qed

lemma sample_err_perturb:
  assumes "b < length t" and "b < length u" and "b < length L"
    and fin: "masked_differences_finite L t u"
    and finq: "\<And>s. finite_abs_diff (q b s) (q' b s)"
  shows "sample_err (take n (perturb_invalid L q t ! b)) (take n (perturb_invalid L q' u ! b))
           (take n (valid_mask S L ! b))
         = sample_err (take n (t ! b)) (take n (u ! b)) (take n (valid_mask S L ! b))"
proof -
  have len: "length (valid_mask S L ! b) = S"
    using assms(3) by (simp add: valid_mask_def)
  show ?thesis
    unfolding sample_err_index
  proof (rule nth_equalityI, goal_cases)
    case 1
    then show ?case using assms(1,2) by (simp add: perturb_invalid_nth)
  next
    case (2 s)
    then have s: "s < n" "s < length (t ! b)" "s < length (u ! b)" "s < S"
      using assms(1,2) len by (simp_all add: perturb_invalid_nth)
    show ?case
    proof (cases "int s < L ! b")
      case True
      then show ?thesis using s assms(1,2) 2 by (simp add: perturb_invalid_nth)
    next
      case False
      then have m: "valid_mask S L ! b ! s = 0"
        using assms(3) s(4) by (simp add: valid_mask_nth)
      have "finite_abs_diff (t ! b ! s) (u ! b ! s)"
        using fin False s assms(1,2) by (simp add: masked_differences_finite_def)
      then show ?thesis
        using s assms(1,2) 2 len m False finq [of s]
        by (simp add: perturb_invalid_nth row_err_zero)
    qed
  qed
qed

lemma curve_err_perturb:
  assumes "masked_differences_finite L t u" and "\<And>b s. finite_abs_diff (q b s) (q' b s)"
  shows "curve_err (map (take n) (perturb_invalid L q t)) (map (take n) (perturb_invalid L q' u))
     (map (take n) (valid_mask S L))
   = curve_err (map (take n) t) (map (take n) u) (map (take n) (valid_mask S L))"
  unfolding curve_err_index
proof (rule nth_equalityI, goal_cases)
  case 1
  then show ?case by simp
next
  case (2 b)
  then have b: "b < length t" "b < length u" "b < length L"
    by (simp_all add: valid_mask_def)
  then show ?case
    using 2 sample_err_perturb [OF b assms(1), of q q' n S] assms(2)
    by (simp add: valid_mask_def)
qed

lemma loss_curve_perturb:
  assumes "masked_differences_finite L t u" and "\<And>b s. finite_abs_diff (q b s) (q' b s)"
  shows "loss_curve lc gs (perturb_invalid L q t) (perturb_invalid L q' u) L = loss_curve lc gs t u L"
  by (simp add: loss_curve_def curve_mae_def Let_def size1_perturb_invalid
      curve_err_perturb [OF assms])


lemma fsum_skip_zero:
  "fsum (map (\<lambda>x. if P x then f x else Fin 0) xs) = fsum (map f (filter P xs))"
  by (induction xs) (simp_all add: fadd_zero_left in_range_fsum)

lemma fsum_row_err:
  assumes "\<not> c \<Longrightarrow> finite_abs_diff p g"
  shows "fsum (row_err p g (if c then 1 else 0)) = (if c then fsum (abs_diffs p g) else Fin 0)"
  using assms by (simp add: row_err_one row_err_zero fsum_zeros)

lemma well_shaped_nth: "well_shaped B S t \<Longrightarrow> b < B \<Longrightarrow> length (t ! b) = S"
  by (auto simp: well_shaped_def list_all_length)

lemma valid_mask_row:
  "b < length L \<Longrightarrow> valid_mask S L ! b = map (\<lambda>s. if int s < L ! b then 1 else 0) [0..<S]"
  by (simp add: valid_mask_def)

lemma sample_numerator:
  assumes "length ps = S" and "length gs = T"
    and fin: "\<And>s. s < S \<Longrightarrow> s < T \<Longrightarrow> \<not> int s < l \<Longrightarrow> finite_abs_diff (ps ! s) (gs ! s)"
  shows "fsum2 (sample_err (take (min S T) ps) (take (min S T) gs)
            (take (min S T) (map (\<lambda>s. if int s < l then 1 else 0) [0..<S])))
         = fsum (map (\<lambda>s. fsum (abs_diffs (ps ! s) (gs ! s))) (valid_rows (min S T) l))"
proof -
  let ?m = "map (\<lambda>s. if int s < l then 1 else (0::real)) [0..<S]"
  have "fsum2 (sample_err (take (min S T) ps) (take (min S T) gs) (take (min S T) ?m))
        = fsum (map (\<lambda>s. fsum (row_err (take (min S T) ps ! s) (take (min S T) gs ! s)
              (take (min S T) ?m ! s))) [0..<min S T])"
    using assms(1,2) by (simp add: sample_err_index fsum2_def comp_def)
  also have "\<dots> = fsum (map (\<lambda>s. if int s < l then fsum (abs_diffs (ps ! s) (gs ! s)) else Fin 0)
              [0..<min S T])"
  proof (rule arg_cong [where f = fsum], rule map_cong [OF refl])
    fix s assume "s \<in> set [0..<min S T]"
    then have s: "s < S" "s < T" by simp_all
    then show "fsum (row_err (take (min S T) ps ! s) (take (min S T) gs ! s) (take (min S T) ?m ! s))
        = (if int s < l then fsum (abs_diffs (ps ! s) (gs ! s)) else Fin 0)"
      using fsum_row_err [of "int s < l" "ps ! s" "gs ! s"] fin [of s] by simp
  qed
  also have "\<dots> = fsum (map (\<lambda>s. fsum (abs_diffs (ps ! s) (gs ! s))) (valid_rows (min S T) l))"
    by (simp add: fsum_skip_zero valid_rows_def)
  finally show ?thesis .
qed

lemma sample_denominator:
  "sum_list (take (min S T) (map (\<lambda>s. if int s < l then 1 else 0) [0..<S]))
   = real (length (valid_rows (min S T) l))"
proof -
  have "take (min S T) (map (\<lambda>s. if int s < l then 1 else (0::real)) [0..<S])
        = map (\<lambda>s. if int s < l then 1 else 0) [0..<min S T]"
    by (simp add: take_map min_def)
  moreover have "sum_list (map (\<lambda>s. if int s < l then 1 else (0::real)) xs)
        = real (length (filter (\<lambda>s. int s < l) xs))" for xs
    by (induction xs) auto
  ultimately show ?thesis by (simp add: valid_rows_def)
qed

lemma batch_numerator:
  assumes "well_shaped B S prd" and "well_shaped B T gt" and "length L = B"
    and fin: "masked_differences_finite L prd gt"
  shows "fsum3 (curve_err (map (take (min S T)) prd) (map (take (min S T)) gt)
            (map (take (min S T)) (valid_mask S L)))
         = fsum (map (\<lambda>b. fsum (map (\<lambda>s. fsum (abs_diffs (prd ! b ! s) (gt ! b ! s)))
                               (valid_rows (min S T) (L ! b)))) [0..<B])"
proof -
  have lens: "length prd = B" "length gt = B" "length (valid_mask S L) = B"
    using assms(1-3) by (simp_all add: well_shaped_def valid_mask_def)
  have "fsum3 (curve_err (map (take (min S T)) prd) (map (take (min S T)) gt)
            (map (take (min S T)) (valid_mask S L)))
        = fsum (map (\<lambda>b. fsum2 (sample_err (take (min S T) (prd ! b)) (take (min S T) (gt ! b))
              (take (min S T) (valid_mask S L ! b)))) [0..<B])"
    unfolding curve_err_index fsum3_def using lens
    by (auto simp: comp_def intro!: arg_cong [where f = fsum] map_cong)
  also have "\<dots> = fsum (map (\<lambda>b. fsum (map (\<lambda>s. fsum (abs_diffs (prd ! b ! s) (gt ! b ! s)))
                               (valid_rows (min S T) (L ! b)))) [0..<B])"
  proof (rule arg_cong [where f = fsum], rule map_cong [OF refl])
    fix b assume "b \<in> set [0..<B]"
    then have b: "b < B" by simp
    have lp: "length (prd ! b) = S" and lg: "length (gt ! b) = T"
      using assms(1,2) b by (simp_all add: well_shaped_nth)
    have "fsum2 (sample_err (take (min S T) (prd ! b)) (take (min S T) (gt ! b))
              (take (min S T) (map (\<lambda>s. if int s < L ! b then 1 else 0) [0..<S])))
            = fsum (map (\<lambda>s. fsum (abs_diffs (prd ! b ! s) (gt ! b ! s))) (valid_rows (min S T) (L ! b)))"
    proof (rule sample_numerator [OF lp lg])
      fix s assume "s < S" "s < T" "\<not> int s < L ! b"
      then show "finite_abs_diff (prd ! b ! s) (gt ! b ! s)"
        using fin b lens lp lg by (simp add: masked_differences_finite_def)
    qed
    then show "fsum2 (sample_err (take (min S T) (prd ! b)) (take (min S T) (gt ! b))
              (take (min S T) (valid_mask S L ! b)))
            = fsum (map (\<lambda>s. fsum (abs_diffs (prd ! b ! s) (gt ! b ! s))) (valid_rows (min S T) (L ! b)))"
      using b assms(3) by (simp add: valid_mask_row)
  qed
  finally show ?thesis .
qed

lemma batch_denominator:
  assumes "length L = B"
  shows "sum2 (map (take (min S T)) (valid_mask S L))
         = real (sum_list (map (\<lambda>b. length (valid_rows (min S T) (L ! b))) [0..<B]))"
proof -
  have "map (take (min S T)) (valid_mask S L)
        = map (\<lambda>b. take (min S T) (map (\<lambda>s. if int s < L ! b then 1 else 0) [0..<S])) [0..<B]"
    using assms by (intro nth_equalityI) (simp_all add: valid_mask_def)
  then have "sum2 (map (take (min S T)) (valid_mask S L))
        = sum_list (map (\<lambda>b. sum_list (take (min S T) (map (\<lambda>s. if int s < L ! b then 1 else 0) [0..<S]))) [0..<B])"
    by (simp add: sum2_def comp_def)
  also have "\<dots> = sum_list (map (\<lambda>b. real (length (valid_rows (min S T) (L ! b)))) [0..<B])"
    by (simp only: sample_denominator)
  also have "\<dots> = real (sum_list (map (\<lambda>b. length (valid_rows (min S T) (L ! b))) [0..<B]))"
    by (induction B) simp_all
  finally show ?thesis .
qed

lemma curve_mae_is_mean:
  assumes "well_shaped B (size1 prd) prd" and "well_shaped B (size1 gt) gt" and "length L = B"
    and "masked_differences_finite L prd gt"
  shows "curve_mae prd gt L =
     fdiv (valid_error_sum prd gt L) (Fin (max (real (valid_row_count prd gt L) * 6) (1 / 10 ^ 9)))"
proof -
  have num: "fsum3 (curve_err (map (take (min (size1 prd) (size1 gt))) prd)
      (map (take (min (size1 prd) (size1 gt))) gt)
      (map (take (min (size1 prd) (size1 gt))) (valid_mask (size1 prd) L))) = valid_error_sum prd gt L"
    using batch_numerator [OF assms] assms(3) by (simp add: valid_error_sum_def)
  have den: "sum2 (map (take (min (size1 prd) (size1 gt))) (valid_mask (size1 prd) L))
      = real (valid_row_count prd gt L)"
    using batch_denominator [OF assms(3), of "size1 prd" "size1 gt"] assms(3)
    by (simp add: valid_row_count_def)
  show ?thesis
    by (simp only: curve_mae_def Let_def num den)
qed


lemma row_err_overflow:
  "row_err (f32_fill (Fin 170141183460469231731687303715884105728))
           (f32_fill (Fin (- 170141183460469231731687303715884105728))) 0
   = [NaN, NaN, NaN, NaN, NaN, NaN]"
  by (simp add: row_err_def f32_vals_def f32_fill_def fsub_def overflow_def FLT_MAX_def)

lemma row_err_unit:
  "row_err (f32_fill (Fin 1)) (f32_fill (Fin 0)) 1 = [Fin 1, Fin 1, Fin 1, Fin 1, Fin 1, Fin 1]"
  "row_err (f32_fill (Fin 0)) (f32_fill (Fin 0)) 0 = [Fin 0, Fin 0, Fin 0, Fin 0, Fin 0, Fin 0]"
  by (simp_all add: row_err_def f32_vals_def f32_fill_def fsub_def overflow_def FLT_MAX_def)

lemma valid_mask_one_of_two: "valid_mask 2 [1] = [[1, 0]]" "valid_mask (Suc (Suc 0)) [1] = [[1, 0]]"
  by (simp_all add: valid_mask_def upt_rec)

lemma loss_curve_nan:
  "loss_curve 2000 10
     [[f32_fill (Fin 1), f32_fill (Fin 170141183460469231731687303715884105728)]]
     [[f32_fill (Fin 0), f32_fill (Fin (- 170141183460469231731687303715884105728))]] [1]
   = NaN"
  by (simp add: loss_curve_def curve_mae_def curve_err_def sample_err_def size1_def Let_def
      valid_mask_one_of_two row_err_overflow row_err_unit fsum3_def fsum2_def sum2_def
      overflow_def FLT_MAX_def)

lemma loss_curve_finite:
  "loss_curve 2000 10
     [[f32_fill (Fin 1), f32_fill (Fin 0)]] [[f32_fill (Fin 0), f32_fill (Fin 0)]] [1]
   = Fin 20000"
  by (simp add: loss_curve_def curve_mae_def curve_err_def sample_err_def size1_def Let_def
      valid_mask_one_of_two row_err_unit fsum3_def fsum2_def sum2_def
      overflow_def FLT_MAX_def)


lemma masked_differences_finite_example:
  "masked_differences_finite [1]
     [[f32_fill (Fin 1), f32_fill (Fin 0)]] [[f32_fill (Fin 0), f32_fill (Fin 0)]]"
  by (auto simp: masked_differences_finite_def finite_abs_diff_def abs_diffs_def f32_vals_def
      f32_fill_def fsub_def finite_f32_def overflow_zero less_Suc_eq numeral_2_eq_2)

lemma finite_abs_diff_example: "finite_abs_diff (f32_fill (Fin 7)) (f32_fill (Fin 3))"
  by (simp add: finite_abs_diff_def abs_diffs_def f32_vals_def f32_fill_def fsub_def
      finite_f32_def overflow_def FLT_MAX_def)

lemma valid_sum_example:
  "valid_error_sum [[f32_fill (Fin 1), f32_fill (Fin 0)]] [[f32_fill (Fin 0), f32_fill (Fin 0)]] [1]
   = Fin 6"
  "valid_row_count [[f32_fill (Fin 1), f32_fill (Fin 0)]] [[f32_fill (Fin 0), f32_fill (Fin 0)]] [1]
   = 1"
  by (simp_all add: valid_error_sum_def valid_row_count_def valid_rows_def size1_def abs_diffs_def
      f32_vals_def f32_fill_def fsub_def overflow_def FLT_MAX_def upt_rec)

text \<open>
  A batch of one sample with one valid row, perturbed at the masked row alone: with the
  masked values \<open>2^127\<close> and \<open>-2^127\<close> (both float32) the difference overflows, the
  product with the mask value 0 is NaN, and the loss is NaN where it was 20000.
\<close>

theorem curve_loss_nan_from_masked_overflow:
  "loss_curve 2000 10
     [[f32_fill (Fin 1), f32_fill (Fin 0)]] [[f32_fill (Fin 0), f32_fill (Fin 0)]] [1]
     = Fin 20000
   \<and> perturb_invalid [1] (\<lambda>b s. f32_fill (Fin 170141183460469231731687303715884105728))
       [[f32_fill (Fin 1), f32_fill (Fin 0)]]
     = [[f32_fill (Fin 1), f32_fill (Fin 170141183460469231731687303715884105728)]]
   \<and> perturb_invalid [1] (\<lambda>b s. f32_fill (Fin (- 170141183460469231731687303715884105728)))
       [[f32_fill (Fin 0), f32_fill (Fin 0)]]
     = [[f32_fill (Fin 0), f32_fill (Fin (- 170141183460469231731687303715884105728))]]
   \<and> loss_curve 2000 10
       [[f32_fill (Fin 1), f32_fill (Fin 170141183460469231731687303715884105728)]]
       [[f32_fill (Fin 0), f32_fill (Fin (- 170141183460469231731687303715884105728))]] [1]
     = NaN"
  by (simp add: loss_curve_finite loss_curve_nan)
     (simp add: perturb_invalid_def upt_rec)

text \<open>
  C2. The validity mask is 1 exactly where \<open>s < length[b]\<close> (for lengths \<open>[3, 5]\<close> and
  \<open>S = 6\<close> it is \<open>[[1,1,1,0,0,0],[1,1,1,1,1,0]]\<close>). The coordinate loss does not change
  when predicted and ground-truth rows at masked positions are replaced by any rows
  whose absolute differences are finite there, given that those of the batch are
  finite there too; and on a rectangular batch with finite masked differences it is
  the weight times the quotient of the sum of the absolute errors of the valid rows
  alone by six times the number of valid rows (clamped to 1e-9 when there is none).
\<close>

theorem curve_loss_ignores_finite_padding:
  "(b < length lengths \<and> s < S \<longrightarrow>
      valid_mask S lengths ! b ! s = (if int s < lengths ! b then 1 else 0))
   \<and> valid_mask 6 [3, 5] = [[1, 1, 1, 0, 0, 0], [1, 1, 1, 1, 1, 0]]
   \<and> (masked_differences_finite lengths prd gt \<and> (\<forall>b s. finite_abs_diff (q b s) (q' b s)) \<longrightarrow>
        loss_curve lambda_curve geom_scale
          (perturb_invalid lengths q prd) (perturb_invalid lengths q' gt) lengths
        = loss_curve lambda_curve geom_scale prd gt lengths)
   \<and> (well_shaped B (size1 prd) prd \<and> well_shaped B (size1 gt) gt \<and> length lengths = B
        \<and> masked_differences_finite lengths prd gt \<longrightarrow>
        loss_curve lambda_curve geom_scale prd gt lengths
        = fmul (fmul (Fin lambda_curve)
                  (fdiv (valid_error_sum prd gt lengths)
                        (Fin (max (real (valid_row_count prd gt lengths) * 6) (1 / 10 ^ 9)))))
               (Fin geom_scale))"
proof (intro conjI impI)
  assume "b < length lengths \<and> s < S"
  then show "valid_mask S lengths ! b ! s = (if int s < lengths ! b then 1 else 0)"
    by (simp add: valid_mask_nth)
next
  show "valid_mask 6 [3, 5] = [[1, 1, 1, 0, 0, 0], [1, 1, 1, 1, 1, 0]]"
    by (rule valid_mask_example)
next
  assume "masked_differences_finite lengths prd gt \<and> (\<forall>b s. finite_abs_diff (q b s) (q' b s))"
  then show "loss_curve lambda_curve geom_scale
        (perturb_invalid lengths q prd) (perturb_invalid lengths q' gt) lengths
      = loss_curve lambda_curve geom_scale prd gt lengths"
    by (intro loss_curve_perturb) auto
next
  assume "well_shaped B (size1 prd) prd \<and> well_shaped B (size1 gt) gt \<and> length lengths = B
        \<and> masked_differences_finite lengths prd gt"
  then have "curve_mae prd gt lengths =
     fdiv (valid_error_sum prd gt lengths)
          (Fin (max (real (valid_row_count prd gt lengths) * 6) (1 / 10 ^ 9)))"
    by (intro curve_mae_is_mean [of B]) auto
  then show "loss_curve lambda_curve geom_scale prd gt lengths
        = fmul (fmul (Fin lambda_curve)
                  (fdiv (valid_error_sum prd gt lengths)
                        (Fin (max (real (valid_row_count prd gt lengths) * 6) (1 / 10 ^ 9)))))
               (Fin geom_scale)"
    by (simp only: loss_curve_def)
qed

theorem curve_loss_ignores_finite_padding_witness:
  "valid_mask 2 [1] ! 0 ! 1 = 0
   \<and> loss_curve 2000 10
        (perturb_invalid [1] (\<lambda>b s. f32_fill (Fin 7)) [[f32_fill (Fin 1), f32_fill (Fin 0)]])
        (perturb_invalid [1] (\<lambda>b s. f32_fill (Fin 3)) [[f32_fill (Fin 0), f32_fill (Fin 0)]]) [1]
      = Fin 20000
   \<and> valid_error_sum [[f32_fill (Fin 1), f32_fill (Fin 0)]] [[f32_fill (Fin 0), f32_fill (Fin 0)]] [1]
      = Fin 6
   \<and> valid_row_count [[f32_fill (Fin 1), f32_fill (Fin 0)]] [[f32_fill (Fin 0), f32_fill (Fin 0)]] [1]
      = 1
   \<and> loss_curve 2000 10 [[f32_fill (Fin 1), f32_fill (Fin 0)]] [[f32_fill (Fin 0), f32_fill (Fin 0)]] [1]
      = Fin 20000"
proof -
  let ?P = "[[f32_fill (Fin 1), f32_fill (Fin 0)]]"
  let ?G = "[[f32_fill (Fin 0), f32_fill (Fin 0)]]"
  have shape: "well_shaped 1 (size1 ?P) ?P" "well_shaped 1 (size1 ?G) ?G"
    by (simp_all add: well_shaped_def size1_def)
  show ?thesis
    using shape masked_differences_finite_example finite_abs_diff_example
      curve_loss_ignores_finite_padding [of 0 "[1]" 1 2 ?P ?G "\<lambda>b s. f32_fill (Fin 7)"
        "\<lambda>b s. f32_fill (Fin 3)" 2000 10 1]
    by (simp add: valid_sum_example loss_curve_finite)
qed

section \<open>Type-classification term: proofs\<close>

lemma selected_row_length:
  "length ms = length rows \<Longrightarrow>
   length (filter (\<lambda>(m, r). m \<noteq> (0::real)) (zip ms rows)) = length (filter (\<lambda>m. m \<noteq> 0) ms)"
  by (induction ms rows rule: list_induct2) auto

lemma selected_rows_length:
  "length msk = length t \<Longrightarrow> list_all2 (\<lambda>ms rows. length ms = length rows) msk t \<Longrightarrow>
   length (concat (map (\<lambda>(ms, rows). map snd (filter (\<lambda>(m, r). m \<noteq> (0::real)) (zip ms rows))) (zip msk t)))
   = length (concat (map (filter (\<lambda>m. m \<noteq> 0)) msk))"
  by (induction msk t rule: list_induct2) (auto simp: selected_row_length)

lemma masked_select_length:
  "masked_select msk t = Inr xs \<Longrightarrow> length xs = length (concat (map (filter (\<lambda>m. m \<noteq> 0)) msk))"
  using selected_rows_length [of msk t]
  by (auto simp: masked_select_def split: if_splits)

lemma type_term_selections_agree:
  assumes "masked_select (valid_mask S lengths) type_logits = Inr xs"
    and "masked_select (valid_mask S lengths) (gt_types_for_masking S gt_curves) = Inr ys"
  shows "length xs = length ys"
  using masked_select_length [OF assms(1)] masked_select_length [OF assms(2)] by simp

lemma type_term_never_warns:
  assumes "type_term cross_entropy lambda_type S type_logits gt_curves lengths = Inr (l, printed)"
  shows "printed = []"
proof -
  from assms obtain xs ys where
    xs: "masked_select (valid_mask S lengths) type_logits = Inr xs"
    and ys: "masked_select (valid_mask S lengths) (gt_types_for_masking S gt_curves) = Inr ys"
    and r: "loss_type cross_entropy lambda_type 10 xs ys = (l, printed)"
    by (auto simp: type_term_def Let_def split: sum.splits)
  have "length xs = length ys" using xs ys by (rule type_term_selections_agree)
  then show ?thesis using r by (auto simp: loss_type_def split: if_splits)
qed


lemma type_term_aligned:
  "type_term (\<lambda>ls ts. 1) 100 2 [[(0, 0, 0), (0, 0, 0)]] [[fill_row 0, fill_row 0]] [2]
   = Inr (1000, [])"
  by (simp add: type_term_def masked_select_def valid_mask_def upt_rec gt_types_for_masking_def
      size1_def loss_type_def Let_def)



section \<open>Padding detection: proofs\<close>

lemma first_true_append:
  "list_all (\<lambda>b. \<not> b) xs \<Longrightarrow>
   first_true (xs @ ys) = map_option (\<lambda>i. length xs + i) (first_true ys)"
proof (induction xs)
  case Nil
  then show ?case by (cases "first_true ys") auto
next
  case (Cons x xs)
  then show ?case by (cases "first_true ys") auto
qed

lemma first_true_replicate_True: "first_true (replicate k True) = (if k = 0 then None else Some 0)"
  by (cases k) auto

lemma is_padding_segment_iff:
  "is_padding_segment r \<longleftrightarrow>
     c1x r = - 1 \<and> c1y r = - 1 \<and> c2x r = - 1 \<and> c2y r = - 1 \<and> ex r = - 1 \<and> ey r = - 1"
  by (simp add: is_padding_segment_def row_vals_def)

lemma is_padding_fill_row: "is_padding_segment (fill_row (- 1))"
  by (simp add: is_padding_segment_iff fill_row_def mk_row_def)

lemma first_padding_index:
  assumes "list_all (\<lambda>r. \<not> is_padding_segment r) real_rows"
  shows "(case first_true (map is_padding_segment (real_rows @ replicate k (fill_row (- 1)))) of
            None \<Rightarrow> length (real_rows @ replicate k (fill_row (- 1)))
          | Some i \<Rightarrow> i) = length real_rows"
proof -
  have "list_all (\<lambda>b. \<not> b) (map is_padding_segment real_rows)"
    using assms by (simp add: list_all_iff)
  then have "first_true (map is_padding_segment (real_rows @ replicate k (fill_row (- 1))))
      = map_option (\<lambda>i. length real_rows + i) (first_true (replicate k True))"
    using first_true_append [of "map is_padding_segment real_rows" "replicate k True"]
    by (simp add: is_padding_fill_row)
  then show ?thesis
    by (simp add: first_true_replicate_True)
qed

lemma size1_well_shaped: "well_shaped B S t \<Longrightarrow> 0 < B \<Longrightarrow> size1 t = S"
  by (cases t) (auto simp: well_shaped_def size1_def)

lemma encoder_mask_sample:
  assumes shape: "well_shaped B S shape_pts" and b: "b < B" and S: "S \<le> seq_len"
    and rows: "shape_pts ! b = real_rows @ replicate k (fill_row (- 1))"
    and real: "list_all (\<lambda>r. \<not> is_padding_segment r) real_rows"
  shows "encoder_valid_segment_mask seq_len shape_pts ! b = map (\<lambda>s. s < length real_rows) [0..<S]"
proof -
  have s1: "size1 shape_pts = S" using shape b by (intro size1_well_shaped [of B]) auto
  have len: "length shape_pts = B" using shape by (simp add: well_shaped_def)
  have S_eq: "S = length (real_rows @ replicate k (fill_row (- 1)))"
    using shape b rows by (auto simp: well_shaped_def list_all_length)
  have al: "(case first_true (map is_padding_segment (shape_pts ! b)) of None \<Rightarrow> S | Some i \<Rightarrow> i)
      = length real_rows"
    by (simp only: rows S_eq first_padding_index [OF real])
  have "encoder_valid_segment_mask seq_len shape_pts ! b
      = map (\<lambda>s. s < (case first_true (map is_padding_segment (shape_pts ! b)) of
                         None \<Rightarrow> S | Some i \<Rightarrow> i)) [0..<S]"
    using b len S by (simp add: encoder_valid_segment_mask_def s1 Let_def)
  then show ?thesis by (simp only: al)
qed







lemma encoder_mask_on_padded_table:
  assumes "pad_to_30 segs = Inr rows" and "list_all (\<lambda>r. \<not> is_padding_segment r) segs"
    and "30 \<le> seq_len"
  shows "encoder_valid_segment_mask seq_len [rows] = [map (\<lambda>s. s < length segs) [0..<30]]"
proof -
  from assms(1) have len: "length segs \<le> 30"
    and rows: "rows = segs @ replicate (30 - length segs) (fill_row (- 1))"
    by (auto simp: pad_to_30_def Let_def nat_diff_distrib split: if_splits)
  have shape: "well_shaped 1 30 [rows]"
    using len rows by (simp add: well_shaped_def)
  have "encoder_valid_segment_mask seq_len [rows] ! 0 = map (\<lambda>s. s < length segs) [0..<30]"
    using shape assms(2,3) rows
    by (intro encoder_mask_sample [of 1 30 "[rows]" 0 seq_len segs "30 - length segs"]) simp_all
  moreover have "length (encoder_valid_segment_mask seq_len [rows]) = 1"
    by (simp add: encoder_valid_segment_mask_def Let_def)
  ultimately show ?thesis
    by (cases "encoder_valid_segment_mask seq_len [rows]") auto
qed





section \<open>Renderer: proofs\<close>

lemma cubic_point_is_bezier3: "cubic_point p0 c1 c2 p1 t = bezier3 p0 c1 c2 p1 t"
  by (simp add: cubic_point_def lerp_def padd_def pscale_def power2_eq_square power3_eq_cube
      algebra_simps)

lemma quadratic_point_is_bezier2: "quadratic_point p0 p1 p2 t = bezier2 p0 p1 p2 t"
  by (simp add: quadratic_point_def lerp_def padd_def pscale_def power2_eq_square algebra_simps)

lemma bezier1_ends: "bezier1 p0 p1 0 = p0" "bezier1 p0 p1 1 = p1"
  by (simp_all add: lerp_def padd_def pscale_def)

lemma length_linspace: "length (linspace a b n) = n"
  by (simp add: linspace_def)

lemma linspace_nth:
  "i < n \<Longrightarrow> 2 \<le> n \<Longrightarrow> linspace 0 1 n ! i = real i / real (n - 1)"
  by (simp add: linspace_def)

lemma linspace_range:
  assumes "i < n"
  shows "0 \<le> linspace 0 1 n ! i \<and> linspace 0 1 n ! i \<le> 1"
proof (cases "n = 1")
  case True
  then show ?thesis using assms by (simp add: linspace_def)
next
  case False
  then have "real i \<le> real (n - 1)" using assms by simp
  then have "real i / real (n - 1) \<le> 1"
    using assms False by (simp add: divide_le_eq)
  then show ?thesis using assms False by (simp add: linspace_def)
qed

lemma render_segment_line: "render_segment start_pt seg 0 steps = [start_pt, (ex seg, ey seg)]"
  by (simp add: render_segment_def)

lemma render_segment_quadratic:
  "render_segment start_pt seg 1 steps
   = map (bezier2 start_pt (c2x seg, c2y seg) (ex seg, ey seg)) (linspace 0 1 steps)"
  by (simp add: render_segment_def quadratic_point_is_bezier2 [abs_def] del: bezier2.simps)

lemma render_segment_cubic:
  "seg_type \<noteq> 0 \<Longrightarrow> seg_type \<noteq> 1 \<Longrightarrow>
   render_segment start_pt seg seg_type steps
   = map (bezier3 start_pt (c1x seg, c1y seg) (c2x seg, c2y seg) (ex seg, ey seg)) (linspace 0 1 steps)"
  by (simp add: render_segment_def cubic_point_is_bezier3 [abs_def] del: bezier3.simps)

lemma render_rows_step:
  "render_rows n i p0 (r # rs) =
     (if i = 0 then map (bezier3 p0 (c1x r, c1y r) (c2x r, c2y r) (ex r, ey r)) (linspace 0 1 n)
      else drop 1 (map (bezier3 p0 (c1x r, c1y r) (c2x r, c2y r) (ex r, ey r)) (linspace 0 1 n)))
     # render_rows n (Suc i) (ex r, ey r) rs"
  by (simp add: bezier_curve_def Let_def cubic_point_is_bezier3 [abs_def] del: bezier3.simps)

lemma render_bezier_sequence_eq:
  "render_bezier_sequence rows p0 n = concat (render_rows n 0 p0 rows)"
  by (simp add: render_bezier_sequence_def)

lemma linspace_3: "linspace 0 1 3 = [0, 1 / 2, 1]"
  by (simp add: linspace_def upt_rec)

lemma render_line_row_as_cubic:
  "render_bezier_sequence [mk_row (- 1) (- 1) (- 1) (- 1) 1 0] (0, 0) 3
   = [(0, 0), (- 5 / 8, - 3 / 4), (1, 0)]"
  by (simp add: render_bezier_sequence_def bezier_curve_def linspace_3 cubic_point_def
      mk_row_def padd_def pscale_def power2_eq_square power3_eq_cube)

lemma degree1_polyline:
  "map (bezier1 (0, 0) (1, 0)) (linspace 0 1 3) = [(0, 0), (1 / 2, 0), (1, 0)]"
  by (simp add: linspace_3 lerp_def padd_def pscale_def)

lemma inferred_type_line: "inferred_type (mk_row (- 1) (- 1) (- 1) (- 1) 1 0) = 0"
  by (simp add: inferred_type_def row_vals_def mk_row_def)


text \<open>
  A Line row from \<open>(0, 0)\<close> to \<open>(1, 0)\<close> with three samples: \<open>render_bezier_sequence\<close> bends
  it through the sentinel control points, where the degree-1 formula gives the straight
  polyline; \<open>render_segment\<close> returns two points.
\<close>

theorem line_row_rendered_as_cubic:
  "render_bezier_sequence [mk_row (- 1) (- 1) (- 1) (- 1) 1 0] (0, 0) 3
     = [(0, 0), (- 5 / 8, - 3 / 4), (1, 0)]
   \<and> map (bezier1 (0, 0) (1, 0)) (linspace 0 1 3) = [(0, 0), (1 / 2, 0), (1, 0)]
   \<and> inferred_type (mk_row (- 1) (- 1) (- 1) (- 1) 1 0) = 0
   \<and> gt_type (mk_row (- 1) (- 1) (- 1) (- 1) 1 0) = 0
   \<and> render_segment (0, 0) (mk_row (- 1) (- 1) (- 1) (- 1) 1 0) 0 3 = [(0, 0), (1, 0)]"
  by (simp add: render_line_row_as_cubic degree1_polyline inferred_type_line
      render_segment_line del: bezier1.simps)
     (simp add: gt_type_def mk_row_def)

text \<open>
  C5. \<open>render_segment\<close> uses the Bezier formula of the degree that matches the
  type it is given: for type 0 the two-point polyline from the start point to the end
  point, whatever \<open>steps\<close> is; for type 1 the quadratic curve through the second control
  pair, and for any other type the cubic curve through both control pairs, each at
  \<open>steps\<close> uniformly spaced parameters in \<open>[0, 1]\<close>. \<open>render_bezier_sequence\<close> renders
  every row, whatever its type, with the cubic formula on the row's two stored control
  pairs at \<open>n\<close> uniformly spaced parameters; the start point of a row is the end point of
  the row before it, the supplied initial point for the first row, and every row but
  the first drops its first sample.
\<close>

theorem renderer_formulas:
  "render_segment start_pt seg 0 steps
     = [bezier1 start_pt (ex seg, ey seg) 0, bezier1 start_pt (ex seg, ey seg) 1]
   \<and> render_segment start_pt seg 1 steps
     = map (bezier2 start_pt (c2x seg, c2y seg) (ex seg, ey seg)) (linspace 0 1 steps)
   \<and> (seg_type \<noteq> 0 \<and> seg_type \<noteq> 1 \<longrightarrow>
        render_segment start_pt seg seg_type steps
        = map (bezier3 start_pt (c1x seg, c1y seg) (c2x seg, c2y seg) (ex seg, ey seg))
            (linspace 0 1 steps))
   \<and> length (linspace 0 1 n) = n
   \<and> (i < n \<and> 2 \<le> n \<longrightarrow> linspace 0 1 n ! i = real i / real (n - 1))
   \<and> (i < n \<longrightarrow> 0 \<le> linspace 0 1 n ! i \<and> linspace 0 1 n ! i \<le> 1)
   \<and> render_bezier_sequence rows initial_p0 n = concat (render_rows n 0 initial_p0 rows)
   \<and> render_rows n k current_p0 (r # rs) =
       (if k = 0
        then map (bezier3 current_p0 (c1x r, c1y r) (c2x r, c2y r) (ex r, ey r)) (linspace 0 1 n)
        else drop 1
          (map (bezier3 current_p0 (c1x r, c1y r) (c2x r, c2y r) (ex r, ey r)) (linspace 0 1 n)))
       # render_rows n (Suc k) (ex r, ey r) rs"
proof (intro conjI impI)
  show "render_segment start_pt seg 0 steps
     = [bezier1 start_pt (ex seg, ey seg) 0, bezier1 start_pt (ex seg, ey seg) 1]"
    by (simp only: render_segment_line bezier1_ends)
next
  show "render_segment start_pt seg 1 steps
     = map (bezier2 start_pt (c2x seg, c2y seg) (ex seg, ey seg)) (linspace 0 1 steps)"
    by (rule render_segment_quadratic)
next
  assume "seg_type \<noteq> 0 \<and> seg_type \<noteq> 1"
  then show "render_segment start_pt seg seg_type steps
        = map (bezier3 start_pt (c1x seg, c1y seg) (c2x seg, c2y seg) (ex seg, ey seg))
            (linspace 0 1 steps)"
    by (intro render_segment_cubic) auto
next
  show "length (linspace 0 1 n) = n"
    by (rule length_linspace)
next
  assume "i < n \<and> 2 \<le> n"
  then show "linspace 0 1 n ! i = real i / real (n - 1)"
    by (intro linspace_nth) auto
next
  assume "i < n"
  then show "0 \<le> linspace 0 1 n ! i" "linspace 0 1 n ! i \<le> 1"
    using linspace_range [of i n] by auto
next
  show "render_bezier_sequence rows initial_p0 n = concat (render_rows n 0 initial_p0 rows)"
    by (rule render_bezier_sequence_eq)
next
  show "render_rows n k current_p0 (r # rs) =
       (if k = 0
        then map (bezier3 current_p0 (c1x r, c1y r) (c2x r, c2y r) (ex r, ey r)) (linspace 0 1 n)
        else drop 1
          (map (bezier3 current_p0 (c1x r, c1y r) (c2x r, c2y r) (ex r, ey r)) (linspace 0 1 n)))
       # render_rows n (Suc k) (ex r, ey r) rs"
    by (rule render_rows_step)
qed

theorem renderer_formulas_witness:
  "render_segment (0, 0) (mk_row 0 1 1 1 1 0) 2 3 = [(0, 0), (1 / 2, 3 / 4), (1, 0)]
   \<and> linspace 0 1 3 ! 1 = 1 / 2"
  using renderer_formulas [of "(0, 0)" "mk_row 0 1 1 1 1 0" 3 2 3 1 "[]" "(0, 0)" 0 "(0, 0)"
      "mk_row 0 1 1 1 1 0" "[]"]
  by (simp add: linspace_3 mk_row_def lerp_def padd_def pscale_def)


section \<open>Mask sampler: proofs\<close>

lemma ceil_sqrt_small: "ceil_sqrt (Suc 0) = Suc 0" "ceil_sqrt 1 = 1" "ceil_sqrt 4 = 2"
  by (simp_all add: ceil_sqrt_def)

lemma linspace_small: "linspace a b (Suc 0) = [a]" "linspace 0 1 2 = [0, 1]"
  by (simp_all add: linspace_def upt_rec)

lemma meshgrid_small:
  "meshgrid_xy [0] [0] = [(0, 0)]"
  "meshgrid_xy [0, 1] [0, 1] = [(0, 0), (1, 0), (0, 1), (1, 1)]"
  by (simp_all add: meshgrid_xy_def)

lemma boundary_points_gpu_none: "boundary_points_gpu None 2 = [(0, 0), (0, 0)]"
  "boundary_points_gpu None 0 = []"
  by (simp_all add: boundary_points_gpu_def numeral_2_eq_2)

lemma interior_points_gpu_corner:
  "interior_points_gpu [[0, 0], [0, 1]] 4
   = Inr [(1000000000 / 1000000001, 1000000000 / 1000000001),
          (1000000000 / 1000000001, 1000000000 / 1000000001),
          (1000000000 / 1000000001, 1000000000 / 1000000001),
          (1000000000 / 1000000001, 1000000000 / 1000000001)]"
  by (simp add: interior_points_gpu_def ceil_sqrt_small linspace_small meshgrid_small Let_def
      numeral_3_eq_3)


lemma gpu_zero_padding:
  "generate_deterministic_context_points_gpu None [[0, 0], [0, 1]] 6 2 4
   = Inr [(0, 0), (0, 0),
          (1000000000 / 1000000001, 1000000000 / 1000000001),
          (1000000000 / 1000000001, 1000000000 / 1000000001),
          (1000000000 / 1000000001, 1000000000 / 1000000001),
          (1000000000 / 1000000001, 1000000000 / 1000000001)]"
  by (simp add: generate_deterministic_context_points_gpu_def boundary_points_gpu_none
      interior_points_gpu_corner py_take_def)

lemma interior_points_gpu_no_hit: "interior_points_gpu [[0, 0], [0, 0]] 1 = Inl RuntimeError"
  by (simp add: interior_points_gpu_def ceil_sqrt_small linspace_small meshgrid_small Let_def)

lemma gpu_no_grid_hit:
  "generate_deterministic_context_points_gpu None [[0, 0], [0, 0]] 1 0 1 = Inl RuntimeError"
  by (simp add: generate_deterministic_context_points_gpu_def interior_points_gpu_no_hit)

lemma gpu_nothing_to_repeat:
  "generate_deterministic_context_points_gpu None [[1]] 1 0 0 = Inl IndexError"
  by (simp add: generate_deterministic_context_points_gpu_def boundary_points_gpu_none
      interior_points_gpu_def)

lemma where_positive_example: "where_positive [[0, 0], [0, 1]] = [(1, 1)]"
  by (simp add: where_positive_def)


lemma closed_loop_vecs_degenerate: "closed_loop_vecs [(1, 1), (1, 1)] = [(0, 0), (0, 0)]"
  by (simp add: closed_loop_vecs_def np_diff_def psub_def)

lemma norm2_zero: "norm2 (0, 0) = 0"
  by (simp add: norm2_def)

lemma edge_point_degenerate:
  "edge_point [(1, 1), (1, 1)] [(0, 0), (0, 0)] [0, 0] [0, 0, 0] 0 = Inl IndexError"
  by (simp add: edge_point_def searchsorted_right_def py_index_def)

lemma boundary_points_degenerate: "boundary_points (Some [(1, 1), (1, 1)]) 3 = Inl IndexError"
  by (simp add: boundary_points_def closed_loop_vecs_degenerate norm2_zero linspace_open_def
      cumsum_def edge_point_degenerate Let_def)

lemma cpu_degenerate_polygon:
  "generate_deterministic_context_points (Some [(1, 1), (1, 1)]) (Some [[1]]) 3 3 1 1 1 1
   = Inl IndexError"
  by (simp add: generate_deterministic_context_points_def boundary_points_degenerate)

lemma cpu_no_mask:
  "generate_deterministic_context_points None None 2 0 1 1 1 1 = Inr []"
  by (simp add: generate_deterministic_context_points_def boundary_points_def)


lemma collect_length: "collect rs = Inr xs \<Longrightarrow> length xs = length rs"
proof (induction rs arbitrary: xs)
  case Nil
  then show ?case by simp
next
  case (Cons r rs)
  then show ?case
    by (cases r) (auto split: sum.splits)
qed

lemma collect_all_Inr:
  "(\<And>r. r \<in> set rs \<Longrightarrow> \<exists>x. r = Inr x) \<Longrightarrow> \<exists>xs. collect rs = Inr xs"
proof (induction rs)
  case Nil
  then show ?case by simp
next
  case (Cons r rs)
  then obtain x where "r = Inr x" by auto
  moreover obtain xs where "collect rs = Inr xs" using Cons by auto
  ultimately show ?case by simp
qed

lemma length_linspace_open: "length (linspace_open a b n) = n"
  by (simp add: linspace_open_def)

lemma length_meshgrid_xy: "length (meshgrid_xy xs ys) = length xs * length ys"
  by (simp add: meshgrid_xy_def length_concat comp_def sum_list_triv)

lemma ceil_sqrt_square: "n \<le> ceil_sqrt n * ceil_sqrt n"
proof -
  have "sqrt (real n) \<le> real (ceil_sqrt n)"
    by (simp add: ceil_sqrt_def)
  then have "(sqrt (real n))\<^sup>2 \<le> (real (ceil_sqrt n))\<^sup>2"
    by (intro power_mono) simp_all
  then have "real n \<le> real (ceil_sqrt n * ceil_sqrt n)"
    by (simp add: power2_eq_square)
  then show ?thesis by linarith
qed

lemma length_interior_points:
  "length (interior_points parent_verts_scaled parent_bin needed W H sx sy) = needed"
  using ceil_sqrt_square [of needed]
  by (simp add: interior_points_def Let_def length_linspace length_meshgrid_xy)

lemma length_boundary_points:
  assumes "boundary_points parent_verts_scaled N_boundary = Inr pts"
  shows "int (length pts) \<le> max 0 N_boundary"
proof (cases parent_verts_scaled)
  case None
  then show ?thesis using assms by (simp add: boundary_points_def)
next
  case (Some verts)
  show ?thesis
  proof (cases "N_boundary > 0 \<and> length verts \<ge> 2")
    case False
    then show ?thesis using assms Some by (auto simp: boundary_points_def)
  next
    case True
    show ?thesis
    proof (cases "int (length verts) < N_boundary")
      case False
      then have m: "min (int (length verts)) N_boundary = N_boundary" by simp
      have "boundary_points parent_verts_scaled N_boundary = Inr (take (nat N_boundary) verts)"
        using Some True by (simp add: boundary_points_def Let_def m)
      then show ?thesis using assms False by auto
    next
      case extra: True
      let ?vecs = "closed_loop_vecs verts"
      let ?rs = "map (edge_point verts ?vecs (map norm2 ?vecs) (0 # cumsum (map norm2 ?vecs)))
             (linspace_open 0 (sum_list (map norm2 ?vecs)) (nat (N_boundary - int (length verts))))"
      have eq: "boundary_points parent_verts_scaled N_boundary =
          (case collect ?rs of Inl e \<Rightarrow> Inl e | Inr extras \<Rightarrow> Inr (verts @ extras))"
        using Some True extra by (simp add: boundary_points_def Let_def min_def cong: sum.case_cong)
      then obtain extras where c: "collect ?rs = Inr extras" and pts: "pts = verts @ extras"
        using assms by (auto split: sum.splits)
      have "length extras = nat (N_boundary - int (length verts))"
        using collect_length [OF c] by (simp add: length_linspace_open)
      then show ?thesis using pts extra by simp
    qed
  qed
qed

lemma sampler_count:
  assumes "generate_deterministic_context_points parent_verts_scaled (Some parent_bin)
             N_total N_boundary W H sx sy = Inr pts"
    and "N_boundary \<le> N_total" and "0 \<le> N_total"
  shows "int (length pts) = N_total"
proof -
  from assms(1) obtain pts0 where b: "boundary_points parent_verts_scaled N_boundary = Inr pts0"
    by (auto simp: generate_deterministic_context_points_def split: sum.splits)
  have le: "int (length pts0) \<le> N_total"
    using length_boundary_points [OF b] assms(2,3) by simp
  show ?thesis
    using assms(1) b le
    by (auto simp: generate_deterministic_context_points_def Let_def length_interior_points
        split: if_splits)
qed


lemma length_takeWhile_less:
  "x \<in> set xs \<Longrightarrow> \<not> P x \<Longrightarrow> length (takeWhile P xs) < length xs"
  by (induction xs) auto

lemma length_cumsum_from: "length (cumsum_from acc xs) = length xs"
  by (induction xs arbitrary: acc) auto

lemma last_cumsum_from: "last (acc # cumsum_from acc xs) = acc + sum_list xs"
  by (induction xs arbitrary: acc) (auto simp: algebra_simps)

lemma length_closed_loop_vecs: "length (closed_loop_vecs verts) = length verts"
  by (simp add: closed_loop_vecs_def np_diff_def)

lemma py_index_in_range: "0 \<le> i \<Longrightarrow> i < int (length xs) \<Longrightarrow> py_index xs i = Inr (xs ! nat i)"
  by (simp add: py_index_def)

lemma edge_point_returns:
  assumes d: "0 \<le> d" "d < sum_list (map norm2 (closed_loop_vecs verts))"
  shows "\<exists>p. edge_point verts (closed_loop_vecs verts) (map norm2 (closed_loop_vecs verts))
           (0 # cumsum (map norm2 (closed_loop_vecs verts))) d = Inr p"
proof -
  let ?lens = "map norm2 (closed_loop_vecs verts)"
  let ?cum = "0 # cumsum ?lens"
  let ?i = "int (searchsorted_right ?cum d) - 1"
  have last: "last ?cum = sum_list ?lens"
    using last_cumsum_from [of 0 ?lens] by (simp add: cumsum_def)
  have "last ?cum \<in> set ?cum" by (rule last_in_set) simp
  then have "length (takeWhile (\<lambda>c. c \<le> d) ?cum) < length ?cum"
    using d(2) last by (intro length_takeWhile_less [of "last ?cum"]) auto
  then have up: "?i < int (length verts)"
    by (simp add: searchsorted_right_def cumsum_def length_cumsum_from length_closed_loop_vecs)
  have lo: "0 \<le> ?i"
    using d(1) by (simp add: searchsorted_right_def)
  have "py_index ?cum ?i = Inr (?cum ! nat ?i)"
    using lo up by (intro py_index_in_range)
      (simp_all add: cumsum_def length_cumsum_from length_closed_loop_vecs)
  moreover have "py_index ?lens ?i = Inr (?lens ! nat ?i)"
    using lo up by (intro py_index_in_range) (simp_all add: length_closed_loop_vecs)
  moreover have "py_index verts ?i = Inr (verts ! nat ?i)"
    using lo up by (intro py_index_in_range) simp_all
  moreover have "py_index (closed_loop_vecs verts) ?i = Inr (closed_loop_vecs verts ! nat ?i)"
    using lo up by (intro py_index_in_range) (simp_all add: length_closed_loop_vecs)
  ultimately show ?thesis
    by (simp add: edge_point_def Let_def)
qed

lemma linspace_open_range:
  assumes "d \<in> set (linspace_open 0 b k)" and "0 < b"
  shows "0 \<le> d \<and> d < b"
proof -
  from assms(1) obtain i where i: "i < k" and d: "d = real i * (b / real k)"
    by (auto simp: linspace_open_def)
  have k: "0 < real k" using i by simp
  have "real i < real k" using i by simp
  then have "real i * (b / real k) < real k * (b / real k)"
    using assms(2) k by (intro mult_strict_right_mono) simp_all
  then have lt: "d < b" using d k by simp
  have "0 \<le> real i * (b / real k)"
    using assms(2) k by (intro mult_nonneg_nonneg) simp_all
  then show ?thesis using lt d by simp
qed

lemma boundary_points_returns:
  assumes "case parent_verts_scaled of None \<Rightarrow> True
           | Some verts \<Rightarrow> N_boundary \<le> int (length verts)
               \<or> 0 < sum_list (map norm2 (closed_loop_vecs verts))"
  shows "\<exists>pts. boundary_points parent_verts_scaled N_boundary = Inr pts"
proof (cases parent_verts_scaled)
  case None
  then show ?thesis by (simp add: boundary_points_def)
next
  case (Some verts)
  let ?vecs = "closed_loop_vecs verts"
  let ?perim = "sum_list (map norm2 ?vecs)"
  let ?rs = "map (edge_point verts ?vecs (map norm2 ?vecs) (0 # cumsum (map norm2 ?vecs)))
             (linspace_open 0 ?perim (nat (N_boundary - min (int (length verts)) N_boundary)))"
  show ?thesis
  proof (cases "N_boundary > 0 \<and> length verts \<ge> 2 \<and> N_boundary - min (int (length verts)) N_boundary > 0")
    case False
    then show ?thesis using Some by (auto simp: boundary_points_def Let_def)
  next
    case True
    then have perim: "0 < ?perim" using assms Some by auto
    have "\<exists>xs. collect ?rs = Inr xs"
    proof (rule collect_all_Inr)
      fix r assume "r \<in> set ?rs"
      then obtain d where d: "d \<in> set (linspace_open 0 ?perim (nat (N_boundary - min (int (length verts)) N_boundary)))"
        and r: "r = edge_point verts ?vecs (map norm2 ?vecs) (0 # cumsum (map norm2 ?vecs)) d"
        by auto
      have "0 \<le> d \<and> d < ?perim" using d perim by (rule linspace_open_range)
      then show "\<exists>x. r = Inr x" unfolding r using edge_point_returns [of d verts] by simp
    qed
    then obtain xs where "collect ?rs = Inr xs" by blast
    then show ?thesis using Some True by (simp add: boundary_points_def Let_def)
  qed
qed


lemma sampler_returns_N_total:
  assumes "N_boundary \<le> N_total" and "0 \<le> N_total"
    and "case parent_verts_scaled of None \<Rightarrow> True
         | Some verts \<Rightarrow> N_boundary \<le> int (length verts)
             \<or> 0 < sum_list (map norm2 (closed_loop_vecs verts))"
  shows "\<exists>pts. generate_deterministic_context_points parent_verts_scaled (Some parent_bin)
             N_total N_boundary W H sx sy = Inr pts \<and> int (length pts) = N_total"
proof -
  obtain pts0 where "boundary_points parent_verts_scaled N_boundary = Inr pts0"
    using boundary_points_returns [OF assms(3)] by blast
  then obtain pts where r: "generate_deterministic_context_points parent_verts_scaled
      (Some parent_bin) N_total N_boundary W H sx sy = Inr pts"
    by (simp add: generate_deterministic_context_points_def Let_def)
  then show ?thesis
    using sampler_count [OF r assms(1,2)] by simp
qed

lemma gpu_sampler_count:
  assumes "generate_deterministic_context_points_gpu parent_verts_scaled parent_bin
             N_total N_boundary N_interior = Inr pts"
    and "0 \<le> N_total"
  shows "int (length pts) = N_total"
  using assms
  by (auto simp: generate_deterministic_context_points_gpu_def Let_def py_take_def
      split: sum.splits if_splits)

lemma linspace_floor_index:
  assumes "0 < M" and "v \<in> set (linspace 0 (real M - 1) n)"
  shows "nat \<lfloor>v\<rfloor> < M"
proof -
  have "0 \<le> v \<and> v \<le> real M - 1"
  proof (cases "n = 1")
    case True
    then show ?thesis using assms by (simp add: linspace_def)
  next
    case False
    then obtain i where i: "i < n" and v: "v = real i * ((real M - 1) / real (n - 1))"
      using assms(2) by (auto simp: linspace_def)
    have n: "0 < real (n - 1)" using i False by simp
    have "real i \<le> real (n - 1)" using i by simp
    then have "real i * ((real M - 1) / real (n - 1)) \<le> real (n - 1) * ((real M - 1) / real (n - 1))"
      using assms(1) n by (intro mult_right_mono) simp_all
    then have "v \<le> real M - 1" using v n by simp
    moreover have "0 \<le> real i * ((real M - 1) / real (n - 1))"
      using assms(1) n by (intro mult_nonneg_nonneg) simp_all
    ultimately show ?thesis using v by simp
  qed
  then have "v < real M" and "0 \<le> \<lfloor>v\<rfloor>"
    by simp_all
  then have "\<lfloor>v\<rfloor> < int M" and "0 \<le> \<lfloor>v\<rfloor>"
    by (simp_all add: floor_less_iff)
  then show ?thesis by linarith
qed

lemma interior_points_are_foreground_pixels:
  assumes "where_positive parent_bin \<noteq> []"
    and "p \<in> set (interior_points parent_verts_scaled parent_bin needed W H sx sy)"
  shows "\<exists>q \<in> set (where_positive parent_bin).
           p = normalize_point W H sx sy (real (fst q), real (snd q))"
proof -
  let ?fg = "where_positive parent_bin"
  from assms obtain v where v: "v \<in> set (linspace 0 (real (length ?fg) - 1) needed)"
    and p: "p = normalize_point W H sx sy (real (fst (?fg ! nat \<lfloor>v\<rfloor>)), real (snd (?fg ! nat \<lfloor>v\<rfloor>)))"
    by (auto simp: interior_points_def Let_def)
  have "nat \<lfloor>v\<rfloor> < length ?fg"
    using assms(1) v by (intro linspace_floor_index) simp_all
  then have "?fg ! nat \<lfloor>v\<rfloor> \<in> set ?fg" by simp
  then show ?thesis using p by blast
qed


text \<open>
  C4. With a mask and \<open>N_boundary \<le> N_total\<close> the sampler returns exactly \<open>N_total\<close>
  points whenever its boundary step returns (\<open>sampler_count\<close>), and that step returns
  for a polygon of positive perimeter (\<open>sampler_returns_N_total\<close>). For a vertex list
  whose points all coincide and \<open>N_boundary\<close> above the vertex count, the perimeter is
  0, the edge index found for distance 0 is one past the last edge, and the sampler
  raises \<open>IndexError\<close> instead of returning \<open>N_total\<close> points.
\<close>

theorem sampler_degenerate_polygon_raises:
  "generate_deterministic_context_points (Some [(1, 1), (1, 1)]) (Some [[1]]) 3 3 1 1 1 1
   = Inl IndexError"
  by (rule cpu_degenerate_polygon)

text \<open>
  C3. When the accelerated sampler returns, the count is \<open>N_total\<close>
  (\<open>gpu_sampler_count\<close>), but not every point is a sampled one. Without polygon vertices
  it puts \<open>N_boundary\<close> points \<open>(0, 0)\<close> first: on the 2 by 2 mask whose only foreground
  pixel is \<open>(1, 1)\<close> the first two of the six returned points are \<open>(0, 0)\<close>, which is
  neither a vertex nor a foreground pixel. With no grid point inside the mask it
  raises \<open>RuntimeError\<close>, and with nothing to repeat it raises \<open>IndexError\<close>.
\<close>

theorem gpu_sampler_pads_with_zero:
  "generate_deterministic_context_points_gpu None [[0, 0], [0, 1]] 6 2 4
     = Inr [(0, 0), (0, 0),
            (1000000000 / 1000000001, 1000000000 / 1000000001),
            (1000000000 / 1000000001, 1000000000 / 1000000001),
            (1000000000 / 1000000001, 1000000000 / 1000000001),
            (1000000000 / 1000000001, 1000000000 / 1000000001)]
   \<and> where_positive [[0, 0], [0, 1]] = [(1, 1)]
   \<and> generate_deterministic_context_points_gpu None [[0, 0], [0, 0]] 1 0 1 = Inl RuntimeError
   \<and> generate_deterministic_context_points_gpu None [[1]] 1 0 0 = Inl IndexError"
  by (simp only: gpu_zero_padding where_positive_example gpu_no_grid_hit gpu_nothing_to_repeat)


end
